theory Spec2Isabelle
  imports Complex_Main "HOL-Library.Word" "HOL-Library.Log_Nat"
begin

unbundle bit_operations_syntax

section \<open>The g30esli drive-by-wire interface node\<close>

text \<open>
  A shallow embedding of \<^verbatim>\<open>g30esli_interface.cpp\<close>: the three subscriber callbacks,
  the keyboard thread, the telemetry thread and the transmit loop of \<^verbatim>\<open>main\<close>.

  Conventions of the embedding.
  \<^item> A finite \<^verbatim>\<open>double\<close> is the \<open>real\<close> it denotes, and so is a \<^verbatim>\<open>float32\<close> axis of
    a joystick message (its conversion to \<^verbatim>\<open>double\<close> is exact). Every
    multiplication, addition and division of the callbacks is the exact operation
    followed by \<open>round_double\<close>, the rounding of IEEE 754 binary64 to the nearest
    double, ties to even: each operation rounds on its own, as in code compiled without
    fused multiply-add and without wider intermediate results. The literals \<^verbatim>\<open>3.6\<close>
    and \<^verbatim>\<open>2.4\<close> are \<open>round_double (36 / 10)\<close> and \<open>round_double (24 / 10)\<close>; the
    other literals are doubles as they stand.
  \<^item> \<^verbatim>\<open>uint16_t\<close> and \<^verbatim>\<open>int16_t\<close> are \<open>16 word\<close> (read by \<open>uint\<close> and \<open>sint\<close>),
    \<^verbatim>\<open>unsigned char\<close> is \<open>8 word\<close>, \<^verbatim>\<open>int\<close> and the \<^verbatim>\<open>int32\<close> buttons are \<open>32 word\<close>.
  \<^item> Undefined behaviour and uncaught exceptions are values of \<open>error\<close>; a function that
    can meet one returns \<open>error + 'a\<close>.
\<close>

subsection \<open>Errors\<close>

datatype error =
    UndefinedBehaviour  \<comment> \<open>the C++ standard gives the program no meaning from here on\<close>
  | OutOfRange          \<comment> \<open>an uncaught \<^verbatim>\<open>std::out_of_range\<close>: the process terminates\<close>
  | InvalidArgument     \<comment> \<open>an uncaught \<^verbatim>\<open>std::invalid_argument\<close>: the process terminates\<close>

subsection \<open>Double precision\<close>

text \<open>
  \<open>binade x\<close> is the exponent \<open>e\<close> with \<open>2\<^sup>e \<le> \<bar>x\<bar> < 2\<^sup>e\<^sup>+\<^sup>1\<close> of a non-zero \<open>x\<close>, read off the
  bit length of the integer part of \<open>\<bar>x\<bar>\<close>, or of its reciprocal when \<open>\<bar>x\<bar> < 1\<close>.
  \<open>ulp x\<close> is the spacing of the doubles around \<open>x\<close>: 52 fraction bits below the
  exponent, which is -1022 at least (below it the doubles are subnormal and equally
  spaced).
\<close>

definition binade :: "real \<Rightarrow> int" where
  "binade x =
     (if 1 \<le> \<bar>x\<bar> then bitlen \<lfloor>\<bar>x\<bar>\<rfloor> - 1 else - bitlen (\<lceil>1 / \<bar>x\<bar>\<rceil> - 1))"

definition ulp :: "real \<Rightarrow> real" where
  "ulp x = 2 powi (max (binade x) (- 1022) - 52)"

definition round_ties_even :: "real \<Rightarrow> int" where
  "round_ties_even x =
     (if x - of_int \<lfloor>x\<rfloor> < 1 / 2 then \<lfloor>x\<rfloor>
      else if 1 / 2 < x - of_int \<lfloor>x\<rfloor> then \<lfloor>x\<rfloor> + 1
      else if even \<lfloor>x\<rfloor> then \<lfloor>x\<rfloor> else \<lfloor>x\<rfloor> + 1)"

text \<open>
  The nearest double. A result beyond the largest double is an infinity in the source;
  here it stays the real it is. The callbacks use their results only in conversions to
  16-bit integers, for which both are out of range. Infinite and NaN message fields are
  outside this embedding.
\<close>

definition round_double :: "real \<Rightarrow> real" where
  "round_double x = (if x = 0 then 0 else of_int (round_ties_even (x / ulp x)) * ulp x)"

definition dmul :: "real \<Rightarrow> real \<Rightarrow> real" where
  "dmul x y = round_double (x * y)"

definition dadd :: "real \<Rightarrow> real \<Rightarrow> real" where
  "dadd x y = round_double (x + y)"

definition ddiv :: "real \<Rightarrow> real \<Rightarrow> real" where
  "ddiv x y = round_double (x / y)"

subsection \<open>Conversions from floating point to the 16-bit fields\<close>

text \<open>
  An assignment of a \<^verbatim>\<open>double\<close> to an integer variable drops the fractional part
  (truncation toward zero). When the truncated value is not a value of the destination
  type the behaviour is undefined.
\<close>

definition trunc :: "real \<Rightarrow> int" where
  "trunc x = (if 0 \<le> x then \<lfloor>x\<rfloor> else \<lceil>x\<rceil>)"

definition double_to_uint16 :: "real \<Rightarrow> error + 16 word" where
  "double_to_uint16 x =
     (if 0 \<le> trunc x \<and> trunc x \<le> 65535 then Inr (word_of_int (trunc x))
      else Inl UndefinedBehaviour)"

definition double_to_int16 :: "real \<Rightarrow> error + 16 word" where
  "double_to_int16 x =
     (if - 32768 \<le> trunc x \<and> trunc x \<le> 32767 then Inr (word_of_int (trunc x))
      else Inl UndefinedBehaviour)"

subsection \<open>Messages\<close>

text \<open>
  Of a \<^verbatim>\<open>geometry_msgs/TwistStamped\<close> the node reads \<^verbatim>\<open>twist.linear.x\<close> and
  \<^verbatim>\<open>twist.angular.z\<close>; of a \<^verbatim>\<open>sensor_msgs/Joy\<close> the two arrays.
\<close>

record TwistStamped =
  linear_x :: real
  angular_z :: real

record Joy =
  axes :: "real list"
  buttons :: "32 word list"

subsection \<open>The variables of the node\<close>

text \<open>
  The globals of the anonymous namespace, and the two \<^verbatim>\<open>static\<close> locals of the loop in
  \<^verbatim>\<open>main\<close>. A static local is initialised when control first passes its declaration
  and keeps its value afterwards: \<open>brake\<close> is \<open>None\<close> until then. \<open>heart_beat\<close> is
  initialised with the constant 0.
\<close>

record globals =
  g_wheel_base :: real
  g_mode :: "32 word"
  g_target_velocity_ui16 :: "16 word"
  g_manual_target_velocity_ui16 :: "16 word"
  g_steering_angle_deg_i16 :: "16 word"
  g_manual_steering_angle_deg_i16 :: "16 word"
  g_current_vel_kmph :: real
  g_terminate_thread :: bool
  g_automode :: bool
  g_shift :: "8 word"
  g_brake :: "8 word"
  brake :: "8 word option"
  heart_beat :: "8 word"

text \<open>
  The state when \<^verbatim>\<open>main\<close> reaches its loop with the default parameters: variables
  of namespace scope without an initialiser are zero, \<^verbatim>\<open>wheel_base\<close> is 2.4 and
  \<^verbatim>\<open>mode\<close> is 8.
\<close>

definition initial_globals :: globals where
  "initial_globals =
     \<lparr> g_wheel_base = round_double (24 / 10), g_mode = 8,
       g_target_velocity_ui16 = 0, g_manual_target_velocity_ui16 = 0,
       g_steering_angle_deg_i16 = 0, g_manual_steering_angle_deg_i16 = 0,
       g_current_vel_kmph = 0, g_terminate_thread = False, g_automode = False,
       g_shift = 0, g_brake = 0, brake = None, heart_beat = 0 \<rparr>"

subsection \<open>The autonomous command: \<^verbatim>\<open>twist_cmd_callback\<close>\<close>

text \<open>
  \<^verbatim>\<open>ymc::computeTargetSteeringAngleDegree\<close> is declared in a header that is not part
  of the sources at hand; the callback takes it as the parameter \<open>csa\<close>, from the
  angular velocity, the linear velocity and the wheel base to the double it returns.
\<close>

definition twist_target_velocity :: "TwistStamped \<Rightarrow> real" where
  "twist_target_velocity msg = dmul (linear_x msg) (round_double (36 / 10))"

definition twist_target_steering_angle_deg ::
  "(real \<Rightarrow> real \<Rightarrow> real \<Rightarrow> real) \<Rightarrow> TwistStamped \<Rightarrow> globals \<Rightarrow> real" where
  "twist_target_steering_angle_deg csa msg s =
     dadd (csa (angular_z msg) (linear_x msg) (g_wheel_base s)) 8"

definition twist_cmd_callback ::
  "(real \<Rightarrow> real \<Rightarrow> real \<Rightarrow> real) \<Rightarrow> TwistStamped \<Rightarrow> globals \<Rightarrow> error + globals" where
  "twist_cmd_callback csa msg s =
     (let target_velocity = dmul (twist_target_velocity msg) 10;
          target_steering_angle_deg = dmul (twist_target_steering_angle_deg csa msg s) 10
      in case double_to_uint16 target_velocity of
           Inl e \<Rightarrow> Inl e
         | Inr v \<Rightarrow>
             (case double_to_int16 (dmul target_steering_angle_deg (- 1)) of
                Inl e \<Rightarrow> Inl e
              | Inr a \<Rightarrow>
                  Inr (s\<lparr> g_target_velocity_ui16 := v, g_steering_angle_deg_i16 := a \<rparr>)))"

definition current_vel_callback :: "TwistStamped \<Rightarrow> globals \<Rightarrow> globals" where
  "current_vel_callback msg s =
     s\<lparr> g_current_vel_kmph := dmul (linear_x msg) (round_double (36 / 10)) \<rparr>"

subsection \<open>The manual command: \<^verbatim>\<open>current_joy_callback\<close>\<close>

text \<open>
  The callback reads the two vectors with \<^verbatim>\<open>operator[]\<close>, which is undefined past
  the end. On every path it reads \<^verbatim>\<open>buttons[0]\<close>, \<^verbatim>\<open>buttons[1]\<close>,
  \<^verbatim>\<open>buttons[5]\<close> and \<^verbatim>\<open>buttons[12]\<close>, and \<^verbatim>\<open>axes[0]\<close> and
  \<^verbatim>\<open>axes[3]\<close>; it reads \<^verbatim>\<open>axes[4]\<close> when button 1 is pressed. The other
  reads (\<^verbatim>\<open>buttons[2]\<close>, \<^verbatim>\<open>buttons[3]\<close>, \<^verbatim>\<open>axes[1]\<close>, \<^verbatim>\<open>axes[2]\<close>)
  have smaller indices than these. The reads are checked here once, before the body.
\<close>

definition joy_arrays_ok :: "Joy \<Rightarrow> bool" where
  "joy_arrays_ok msg =
     (13 \<le> length (buttons msg) \<and>
      (if buttons msg ! 1 = 1 then 5 else 4) \<le> length (axes msg))"

definition joy_target_velocity :: "Joy \<Rightarrow> real" where
  "joy_target_velocity msg =
     (if buttons msg ! 1 = 1
      then (let r2 = ddiv (dadd (- (axes msg ! 4)) 1) 2 in dadd (dmul 16 r2) 3)
      else 0)"

definition joy_steering_angle_ratio_deg :: "Joy \<Rightarrow> real" where
  "joy_steering_angle_ratio_deg msg =
     (let l2 = ddiv (dadd (- (axes msg ! 3)) 1) 2 in dadd 20 (dmul 17 l2))"

definition joy_target_steering_angle_deg :: "Joy \<Rightarrow> real" where
  "joy_target_steering_angle_deg msg =
     dadd (dmul (joy_steering_angle_ratio_deg msg) (axes msg ! 0)) 8"

definition joy_brake :: "Joy \<Rightarrow> 8 word" where
  "joy_brake msg =
     (if buttons msg ! 0 = 1 then 1
      else if buttons msg ! 2 = 1 then 2
      else if buttons msg ! 3 = 1 then 3
      else 0)"

definition current_joy_callback :: "Joy \<Rightarrow> globals \<Rightarrow> error + globals" where
  "current_joy_callback msg s =
     (if \<not> joy_arrays_ok msg then Inl UndefinedBehaviour
      else
        let s1 = (if buttons msg ! 0 = 1 \<or> axes msg ! 1 \<noteq> 0 \<or> axes msg ! 2 \<noteq> 0
                  then s\<lparr> g_automode := False \<rparr> else s);
            s2 = s1\<lparr> g_brake := joy_brake msg, g_shift := ucast (buttons msg ! 5) \<rparr>
        in case double_to_uint16 (dmul (joy_target_velocity msg) 10) of
             Inl e \<Rightarrow> Inl e
           | Inr v \<Rightarrow>
               (case double_to_int16 (dmul (dmul (joy_target_steering_angle_deg msg) 10) (- 1)) of
                  Inl e \<Rightarrow> Inl e
                | Inr a \<Rightarrow>
                    (let s3 = s2\<lparr> g_manual_target_velocity_ui16 := v,
                                   g_manual_steering_angle_deg_i16 := a \<rparr>
                     in Inr (if buttons msg ! 12 = 1
                             then s3\<lparr> g_automode := True, g_shift := 0 \<rparr>
                             else s3))))"

subsection \<open>The keyboard thread: \<^verbatim>\<open>changeMode\<close>\<close>

text \<open>One pass of the loop body after \<^verbatim>\<open>getchar\<close> has returned \<open>c\<close>.\<close>

definition changeMode :: "char \<Rightarrow> globals \<Rightarrow> globals" where
  "changeMode c s =
     (let s1 = (if c = CHR '' '' then s\<lparr> g_mode := 3 \<rparr> else s)
      in if c = CHR ''s'' then s1\<lparr> g_mode := 8 \<rparr> else s1)"

subsection \<open>The control frame\<close>

datatype byte_order = BigEndian | LittleEndian

definition bytes16 :: "byte_order \<Rightarrow> 16 word \<Rightarrow> 8 word list" where
  "bytes16 ord w =
     (case ord of
        BigEndian \<Rightarrow> [ucast (drop_bit 8 w), ucast w]
      | LittleEndian \<Rightarrow> [ucast w, ucast (drop_bit 8 w)])"

text \<open>
  Modelled from the spec: \<^verbatim>\<open>ymc::setCanData\<close> is declared in
  \<^verbatim>\<open>can_utils/ymc_can.h\<close>, which is not part of the sources at hand. The specification
  fixes the layout: byte 0 mode, byte 1 shift, bytes 2 and 3 velocity, bytes 4 and 5
  steering angle, byte 6 brake, byte 7 heartbeat, with one byte order for both 16-bit
  fields, left open; it is the parameter \<open>ord\<close>.
\<close>

definition setCanData ::
  "byte_order \<Rightarrow> 8 word \<Rightarrow> 8 word \<Rightarrow> 16 word \<Rightarrow> 16 word \<Rightarrow> 8 word \<Rightarrow> 8 word \<Rightarrow> 8 word list" where
  "setCanData ord d1 d2 d3 d4 d5 d6 = [d1, d2] @ bytes16 ord d3 @ bytes16 ord d4 @ [d5, d6]"

subsection \<open>The transmit loop of \<^verbatim>\<open>main\<close>\<close>

text \<open>
  The locals that one pass of the loop reads (lines 225 to 230). The declaration
  \<^verbatim>\<open>static unsigned char brake = g_brake;\<close> copies \<^verbatim>\<open>g_brake\<close> on the first pass
  only; later passes find the static already initialised.
\<close>

record tick_locals =
  tick_mode :: "8 word"
  tick_shift :: "8 word"
  tick_target_velocity_ui16 :: "16 word"
  tick_steering_angle_deg_i16 :: "16 word"
  tick_brake :: "8 word"

definition init_static_brake :: "globals \<Rightarrow> globals" where
  "init_static_brake s =
     (case brake s of None \<Rightarrow> s\<lparr> brake := Some (g_brake s) \<rparr> | Some b \<Rightarrow> s)"

definition select_command :: "globals \<Rightarrow> tick_locals" where
  "select_command s =
     \<lparr> tick_mode = ucast (g_mode s),
       tick_shift = g_shift s,
       tick_target_velocity_ui16 =
         (if g_automode s then g_target_velocity_ui16 s else g_manual_target_velocity_ui16 s),
       tick_steering_angle_deg_i16 =
         (if g_automode s then g_steering_angle_deg_i16 s
          else g_manual_steering_angle_deg_i16 s),
       tick_brake = (case brake s of None \<Rightarrow> g_brake s | Some b \<Rightarrow> b) \<rparr>"

definition tick_data :: "byte_order \<Rightarrow> globals \<Rightarrow> 8 word list" where
  "tick_data ord s =
     (let c = select_command s
      in setCanData ord (tick_mode c) (tick_shift c) (tick_target_velocity_ui16 c)
           (tick_steering_angle_deg_i16 c) (tick_brake c) (heart_beat s))"

text \<open>
  Between the transmission of a frame and the next pass, \<^verbatim>\<open>ros::spinOnce\<close> runs the
  pending subscriber callbacks on the thread of \<^verbatim>\<open>main\<close>, and during
  \<^verbatim>\<open>loop_rate.sleep\<close> the two background threads may write \<^verbatim>\<open>g_mode\<close>: the
  keyboard thread after a key stroke, the telemetry thread through the pointer it hands
  to \<^verbatim>\<open>ymc::translateCanData\<close>. \<^verbatim>\<open>g_mode\<close> is read once per pass, so these writes
  are taken to fall between two passes.
\<close>

datatype event =
    TwistCmd TwistStamped
  | CurrentVelocity TwistStamped
  | JoyInput Joy
  | KeyStroke char
  | BusMode "32 word"

fun dispatch :: "(real \<Rightarrow> real \<Rightarrow> real \<Rightarrow> real) \<Rightarrow> event \<Rightarrow> globals \<Rightarrow> error + globals" where
  "dispatch csa (TwistCmd msg) s = twist_cmd_callback csa msg s"
| "dispatch csa (CurrentVelocity msg) s = Inr (current_vel_callback msg s)"
| "dispatch csa (JoyInput msg) s = current_joy_callback msg s"
| "dispatch csa (KeyStroke c) s = Inr (changeMode c s)"
| "dispatch csa (BusMode m) s = Inr (s\<lparr> g_mode := m \<rparr>)"

fun spin_and_sleep ::
  "(real \<Rightarrow> real \<Rightarrow> real \<Rightarrow> real) \<Rightarrow> event list \<Rightarrow> globals \<Rightarrow> error + globals" where
  "spin_and_sleep csa [] s = Inr s"
| "spin_and_sleep csa (e # es) s =
     (case dispatch csa e s of Inl x \<Rightarrow> Inl x | Inr s' \<Rightarrow> spin_and_sleep csa es s')"

text \<open>
  The loop, one list of events per pass. The result is the list of the payloads handed
  to \<^verbatim>\<open>g_cansender.send\<close>, in order, and the state at the end or the error that stopped
  the process.
\<close>

fun main_loop ::
  "(real \<Rightarrow> real \<Rightarrow> real \<Rightarrow> real) \<Rightarrow> byte_order \<Rightarrow> event list list \<Rightarrow> globals
     \<Rightarrow> 8 word list list \<times> (error + globals)" where
  "main_loop csa ord [] s = ([], Inr s)"
| "main_loop csa ord (evs # rest) s =
     (let s1 = init_static_brake s;
          data = tick_data ord s1
      in case spin_and_sleep csa evs s1 of
           Inl x \<Rightarrow> ([data], Inl x)
         | Inr s2 \<Rightarrow>
             (let r = main_loop csa ord rest (s2\<lparr> heart_beat := heart_beat s2 + 1 \<rparr>)
              in (data # fst r, snd r)))"

subsection \<open>The telemetry thread: \<^verbatim>\<open>readCanData\<close>\<close>

definition isspace :: "char \<Rightarrow> bool" where
  "isspace c = (c \<in> set [CHR '' '', CHR 0x09, CHR 0x0A, CHR 0x0B, CHR 0x0C, CHR 0x0D])"

text \<open>
  Modelled from the spec: \<^verbatim>\<open>ymc::splitString\<close> is declared in
  \<^verbatim>\<open>g30esli_interface_util.h\<close>, which is not part of the sources at hand. The
  specification says that a line is split on whitespace into its tokens.
\<close>

fun splitString_from :: "string \<Rightarrow> string \<Rightarrow> string list" where
  "splitString_from tok [] = (if tok = [] then [] else [rev tok])"
| "splitString_from tok (c # cs) =
     (if isspace c
      then (if tok = [] then splitString_from [] cs else rev tok # splitString_from [] cs)
      else splitString_from (c # tok) cs)"

text \<open>Modelled from the spec: the tokens of a line, read from its start.\<close>

definition splitString :: "string \<Rightarrow> string list" where
  "splitString str = splitString_from [] str"

text \<open>
  \<^verbatim>\<open>std::stoi(str, nullptr, 10)\<close>: leading whitespace is skipped, a sign is optional,
  the longest run of decimal digits is read and what follows is ignored. With no digit
  it throws \<^verbatim>\<open>std::invalid_argument\<close>, with a value that is not an \<^verbatim>\<open>int\<close> it throws
  \<^verbatim>\<open>std::out_of_range\<close>.
\<close>

definition isdigit :: "char \<Rightarrow> bool" where
  "isdigit c = (48 \<le> (of_char c :: nat) \<and> (of_char c :: nat) \<le> 57)"

definition digits_value :: "string \<Rightarrow> nat" where
  "digits_value ds = foldl (\<lambda>n c. 10 * n + (of_char c - 48)) 0 ds"

definition stoi :: "string \<Rightarrow> error + int" where
  "stoi str =
     (let s1 = dropWhile isspace str;
          neg = (s1 \<noteq> [] \<and> hd s1 = CHR ''-'');
          s2 = (if s1 \<noteq> [] \<and> (hd s1 = CHR ''-'' \<or> hd s1 = CHR ''+'') then tl s1 else s1);
          ds = takeWhile isdigit s2
      in if ds = [] then Inl InvalidArgument
         else
           (let v = (if neg then - int (digits_value ds) else int (digits_value ds))
            in if - 2147483648 \<le> v \<and> v \<le> 2147483647 then Inr v else Inl OutOfRange))"

text \<open>
  The body of the loop for one buffer \<open>raw_data\<close> that \<^verbatim>\<open>fgets\<close> returned.
  \<^verbatim>\<open>ymc::translateCanData\<close> and the macro \<^verbatim>\<open>RET_NO_PUBLISH\<close> come from headers that
  are not part of the sources at hand: they are the parameters \<open>tcd\<close> (from the
  identifier, the data tokens and the mode to the returned velocity and the mode it
  leaves behind) and \<open>no_publish\<close>.

  \<^verbatim>\<open>data.erase(data.begin(), data.begin() + 3)\<close> is undefined on a vector of fewer than
  three elements; \<^verbatim>\<open>parsed_data.at(1)\<close> throws \<^verbatim>\<open>std::out_of_range\<close> on a vector of
  fewer than two. No handler is installed, here or in the caller. The value is the
  velocity published on \<^verbatim>\<open>ymc_current_twist\<close>, if any.
\<close>

definition readCanData_line ::
  "(int \<Rightarrow> string list \<Rightarrow> 32 word \<Rightarrow> real \<times> 32 word) \<Rightarrow> real \<Rightarrow> string \<Rightarrow> globals
     \<Rightarrow> error + (real option \<times> globals)" where
  "readCanData_line tcd no_publish raw_data s =
     (if raw_data = [] then Inr (None, s)
      else
        let parsed_data = splitString raw_data
        in if length parsed_data < 3 then Inl UndefinedBehaviour
           else
             (let data = drop 3 parsed_data
              in if length parsed_data < 2 then Inl OutOfRange
                 else
                   (case stoi (parsed_data ! 1) of
                      Inl x \<Rightarrow> Inl x
                    | Inr ident \<Rightarrow>
                        (let r = tcd ident data (g_mode s);
                             s' = s\<lparr> g_mode := snd r \<rparr>
                         in Inr (if fst r \<noteq> no_publish then Some (fst r) else None, s')))))"

text \<open>
  The stream is the list of the buffers that the successive calls of \<^verbatim>\<open>fgets\<close> return
  before the end of the stream. The result is the list of the published velocities and
  the state at the end, or the error that stopped the process.
\<close>

fun readCanData_loop ::
  "(int \<Rightarrow> string list \<Rightarrow> 32 word \<Rightarrow> real \<times> 32 word) \<Rightarrow> real \<Rightarrow> string list \<Rightarrow> globals
     \<Rightarrow> real list \<times> (error + globals)" where
  "readCanData_loop tcd no_publish [] s = ([], Inr s)"
| "readCanData_loop tcd no_publish (buf # rest) s =
     (if g_terminate_thread s then ([], Inr s)
      else
        (case readCanData_line tcd no_publish buf s of
           Inl x \<Rightarrow> ([], Inl x)
         | Inr (p, s') \<Rightarrow>
             (let r = readCanData_loop tcd no_publish rest s'
              in ((case p of None \<Rightarrow> fst r | Some v \<Rightarrow> v # fst r), snd r))))"

text \<open>
  \<open>fp\<close> is what \<^verbatim>\<open>popen\<close> returned: \<open>None\<close> is the null pointer, and \<^verbatim>\<open>fgets\<close> on
  a null stream is undefined.
\<close>

definition readCanData ::
  "(int \<Rightarrow> string list \<Rightarrow> 32 word \<Rightarrow> real \<times> 32 word) \<Rightarrow> real \<Rightarrow> string list option \<Rightarrow> globals
     \<Rightarrow> real list \<times> (error + globals)" where
  "readCanData tcd no_publish fp s =
     (case fp of
        None \<Rightarrow> ([], Inl UndefinedBehaviour)
      | Some bufs \<Rightarrow> readCanData_loop tcd no_publish bufs s)"

subsection \<open>Start-up of \<^verbatim>\<open>main\<close>\<close>

text \<open>
  Lines 202 to 222: \<^verbatim>\<open>g_cansender.init(g_device)\<close> is called as a statement, so
  whatever it reports is dropped (\<open>init_ok\<close>); \<^verbatim>\<open>popen\<close> yields \<open>fp\<close>, which is
  handed to the telemetry thread as it is; then the loop is entered. There is no branch
  on either outcome. What \<^verbatim>\<open>init\<close> does inside on a failure lies in
  \<^verbatim>\<open>can_utils/cansend.h\<close>, which is not part of the sources at hand.
\<close>

datatype startup =
    FailedFast
  | Running "string list option"
      \<comment> \<open>both threads created, the telemetry thread on this stream, the loop entered\<close>

definition main_startup :: "bool \<Rightarrow> string list option \<Rightarrow> startup" where
  "main_startup init_ok fp = Running fp"

subsection \<open>Sample inputs\<close>

text \<open>
  What may happen between two frames of a sample run: the operator strikes the space
  bar, an autonomous command of 2 m/s and 0.1 rad/s arrives, the operator strikes
  \<^verbatim>\<open>s\<close>.
\<close>

definition demo_events :: "event list" where
  "demo_events =
     [KeyStroke CHR '' '', TwistCmd \<lparr> linear_x = 2, angular_z = round_double (1 / 10) \<rparr>,
      KeyStroke CHR ''s'']"

text \<open>
  A joystick message of a controller with 13 buttons and 5 axes, nothing pressed and
  every axis at 0.
\<close>

definition joy_released :: Joy where
  "joy_released = \<lparr> axes = [0, 0, 0, 0, 0], buttons = [0, 0, 0, 0, 0, 0, 0, 0, 0, 0, 0, 0, 0] \<rparr>"

section \<open>Properties\<close>

subsection \<open>Double precision\<close>

text \<open>
  Rounding to the nearest double is odd, monotone, the identity on the doubles, and
  moves its argument by half a unit in the last place at most.
\<close>

subsection \<open>Rounding to an integer\<close>

lemma round_ties_even_near:
  "\<bar>x - of_int (round_ties_even x)\<bar> < 1 / 2 \<or>
   (\<bar>x - of_int (round_ties_even x)\<bar> = 1 / 2 \<and> even (round_ties_even x))"
proof -
  define f where "f = \<lfloor>x\<rfloor>"
  define r where "r = x - of_int f"
  have r: "0 \<le> r" "r < 1" unfolding r_def f_def by linarith+
  have x: "x = of_int f + r" by (simp add: r_def)
  consider "r < 1 / 2" | "1 / 2 < r" | "r = 1 / 2" "even f" | "r = 1 / 2" "odd f"
    by fastforce
  then show ?thesis
  proof cases
    case 1
    then have "round_ties_even x = f" by (simp add: round_ties_even_def r_def f_def)
    with 1 r show ?thesis by (simp add: x)
  next
    case 2
    then have "round_ties_even x = f + 1" by (simp add: round_ties_even_def r_def f_def)
    with 2 r show ?thesis by (simp add: x)
  next
    case 3
    then have "round_ties_even x = f" by (simp add: round_ties_even_def r_def f_def)
    with 3 show ?thesis by (simp add: x)
  next
    case 4
    then have "round_ties_even x = f + 1" by (simp add: round_ties_even_def r_def f_def)
    with 4 show ?thesis by (simp add: x)
  qed
qed

lemma round_ties_even_unique:
  assumes "\<bar>x - of_int n\<bar> < 1 / 2 \<or> (\<bar>x - of_int n\<bar> = 1 / 2 \<and> even n)"
  shows "round_ties_even x = n"
proof -
  let ?r = "round_ties_even x"
  note r = round_ties_even_near [of x]
  have "\<bar>real_of_int ?r - real_of_int n\<bar> \<le> 1" using r assms by linarith
  then have d: "\<bar>?r - n\<bar> \<le> 1" by linarith
  show ?thesis
  proof (rule ccontr)
    assume ne: "?r \<noteq> n"
    with d have d1: "\<bar>?r - n\<bar> = 1" by linarith
    then have "real_of_int \<bar>?r - n\<bar> = 1" by simp
    then have "\<bar>real_of_int ?r - real_of_int n\<bar> = 1" by simp
    with r assms have "even ?r \<and> even n" by linarith
    with d1 show False by presburger
  qed
qed

lemma round_ties_even_of_int [simp]: "round_ties_even (of_int n) = n"
  by (rule round_ties_even_unique) simp

lemma round_ties_even_minus: "round_ties_even (- x) = - round_ties_even x"
proof (rule round_ties_even_unique)
  have "\<bar>- x - of_int (- round_ties_even x)\<bar> = \<bar>x - of_int (round_ties_even x)\<bar>"
    by simp
  with round_ties_even_near [of x]
  show "\<bar>- x - of_int (- round_ties_even x)\<bar> < 1 / 2 \<or>
        (\<bar>- x - of_int (- round_ties_even x)\<bar> = 1 / 2 \<and> even (- round_ties_even x))"
    by simp
qed

lemma round_ties_even_mono:
  assumes "x \<le> y"
  shows "round_ties_even x \<le> round_ties_even y"
proof (rule ccontr)
  assume "\<not> round_ties_even x \<le> round_ties_even y"
  then have "round_ties_even y + 1 \<le> round_ties_even x" by simp
  then have g: "real_of_int (round_ties_even y) + 1 \<le> real_of_int (round_ties_even x)"
    by linarith
  note rx = round_ties_even_near [of x] and ry = round_ties_even_near [of y]
  from rx ry g assms have "x = y" by linarith
  with \<open>\<not> round_ties_even x \<le> round_ties_even y\<close> show False by simp
qed

lemma round_ties_even_error: "\<bar>x - of_int (round_ties_even x)\<bar> \<le> 1 / 2"
  using round_ties_even_near [of x] by linarith

subsection \<open>The binade\<close>

lemma binade_bounds:
  assumes "x \<noteq> 0"
  shows "2 powi binade x \<le> \<bar>x\<bar>" and "\<bar>x\<bar> < 2 powi (binade x + 1)"
proof -
  have "2 powi binade x \<le> \<bar>x\<bar> \<and> \<bar>x\<bar> < 2 powi (binade x + 1)"
  proof (cases "1 \<le> \<bar>x\<bar>")
    case True
    define n where "n = \<lfloor>\<bar>x\<bar>\<rfloor>"
    have n: "0 < n" using True by (simp add: n_def)
    have b: "binade x = bitlen n - 1" using True by (simp add: binade_def n_def)
    have b1: "1 \<le> bitlen n" using n by (simp add: bitlen_alt_def)
    from bitlen_bounds [OF n] have lo: "2 ^ nat (bitlen n - 1) \<le> n" and hi: "n < 2 ^ nat (bitlen n)"
      by auto
    have p1: "(2::real) powi (bitlen n - 1) = 2 ^ nat (bitlen n - 1)"
      using b1 by (simp add: power_int_def)
    have p2: "(2::real) powi (bitlen n - 1 + 1) = 2 ^ nat (bitlen n)"
      using b1 by (simp add: power_int_def)
    have "real_of_int n \<le> \<bar>x\<bar>" "\<bar>x\<bar> < real_of_int n + 1" unfolding n_def by linarith+
    moreover from lo have "real_of_int (2 ^ nat (bitlen n - 1)) \<le> real_of_int n"
      by (simp only: of_int_le_iff)
    then have "(2::real) ^ nat (bitlen n - 1) \<le> real_of_int n" by simp
    moreover from hi have "n + 1 \<le> 2 ^ nat (bitlen n)" by simp
    then have "real_of_int (n + 1) \<le> real_of_int (2 ^ nat (bitlen n))"
      by (simp only: of_int_le_iff)
    then have "real_of_int n + 1 \<le> 2 ^ nat (bitlen n)" by simp
    ultimately show ?thesis unfolding b p1 p2 by linarith
  next
    case False
    define y where "y = 1 / \<bar>x\<bar>"
    define m where "m = \<lceil>y\<rceil> - 1"
    have xp: "0 < \<bar>x\<bar>" using assms by simp
    have y1: "1 < y" using False xp by (simp add: y_def)
    have m: "0 < m" using y1 by (simp add: m_def)
    have b: "binade x = - bitlen m" using False by (simp add: binade_def m_def y_def)
    have b1: "1 \<le> bitlen m" using m by (simp add: bitlen_alt_def)
    from bitlen_bounds [OF m] have lo: "2 ^ nat (bitlen m - 1) \<le> m" and hi: "m < 2 ^ nat (bitlen m)"
      by auto
    have my: "real_of_int m < y" "y \<le> real_of_int m + 1" unfolding m_def by linarith+
    from lo have "real_of_int (2 ^ nat (bitlen m - 1)) \<le> real_of_int m"
      by (simp only: of_int_le_iff)
    then have lo': "(2::real) ^ nat (bitlen m - 1) \<le> real_of_int m" by simp
    from hi have "m + 1 \<le> 2 ^ nat (bitlen m)" by simp
    then have "real_of_int (m + 1) \<le> real_of_int (2 ^ nat (bitlen m))"
      by (simp only: of_int_le_iff)
    then have hi': "real_of_int m + 1 \<le> 2 ^ nat (bitlen m)" by simp
    have p1: "(2::real) powi (- bitlen m) = 1 / 2 ^ nat (bitlen m)"
      using b1 by (simp add: power_int_def field_simps)
    have p2: "(2::real) powi (- bitlen m + 1) = 1 / 2 ^ nat (bitlen m - 1)"
      using b1 by (auto simp: power_int_def field_simps nat_diff_distrib)
    have x_y: "\<bar>x\<bar> = 1 / y" using xp by (simp add: y_def)
    have yh: "y \<le> 2 ^ nat (bitlen m)" using my hi' by linarith
    have "1 / 2 ^ nat (bitlen m) \<le> 1 / y"
      by (rule divide_left_mono [OF yh]) (use y1 in simp_all)
    moreover have yl: "2 ^ nat (bitlen m - 1) < y" using my lo' by linarith
    have "1 / y < 1 / 2 ^ nat (bitlen m - 1)"
      by (rule divide_strict_left_mono [OF yl zero_less_one]) (use y1 in simp)
    ultimately show ?thesis unfolding b p1 p2 x_y by simp
  qed
  then show "2 powi binade x \<le> \<bar>x\<bar>" and "\<bar>x\<bar> < 2 powi (binade x + 1)" by simp_all
qed

lemma binade_eqI:
  assumes "2 powi e \<le> \<bar>x\<bar>" and "\<bar>x\<bar> < 2 powi (e + 1)"
  shows "binade x = e"
proof -
  have "0 < (2::real) powi e" by simp
  with assms(1) have "0 < \<bar>x\<bar>" by linarith
  then have "x \<noteq> 0" by simp
  note b = binade_bounds [OF this]
  have "(2::real) powi binade x < 2 powi (e + 1)" using b(1) assms(2) by linarith
  then have 1: "binade x < e + 1"
    using power_int_increasing [of "e + 1" "binade x" "2::real"] by (cases "binade x < e + 1") auto
  have "(2::real) powi e < 2 powi (binade x + 1)" using b(2) assms(1) by linarith
  then have 2: "e < binade x + 1"
    using power_int_increasing [of "binade x + 1" e "2::real"] by (cases "e < binade x + 1") auto
  from 1 2 show ?thesis by simp
qed

lemma binade_minus [simp]: "binade (- x) = binade x"
  by (simp add: binade_def)

lemma binade_mono:
  assumes "x \<noteq> 0" and "\<bar>x\<bar> \<le> \<bar>y\<bar>"
  shows "binade x \<le> binade y"
proof -
  have y: "y \<noteq> 0" using assms by auto
  have "(2::real) powi binade x < 2 powi (binade y + 1)"
    using binade_bounds(1) [OF assms(1)] binade_bounds(2) [OF y] assms(2) by linarith
  then have "binade x < binade y + 1"
    using power_int_increasing [of "binade y + 1" "binade x" "2::real"]
    by (cases "binade x < binade y + 1") auto
  then show ?thesis by simp
qed

subsection \<open>Rounding to a double\<close>

lemma ulp_minus [simp]: "ulp (- x) = ulp x"
  by (simp add: ulp_def)

lemma ulp_pos [simp]: "0 < ulp x"
  by (simp add: ulp_def)

lemma ulp_nonneg [simp]: "0 \<le> ulp x"
  by (simp add: ulp_def)

lemma ulp_neq_0 [simp]: "ulp x \<noteq> 0"
  by (simp add: ulp_def)

lemma round_double_minus: "round_double (- x) = - round_double x"
  by (simp add: round_double_def round_ties_even_minus)

lemma round_double_0 [simp]: "round_double 0 = 0"
  by (simp add: round_double_def)

lemma round_double_nonneg:
  assumes "0 \<le> x"
  shows "0 \<le> round_double x"
proof (cases "x = 0")
  case True
  then show ?thesis by simp
next
  case False
  have "0 \<le> x / ulp x" using assms by simp
  from round_ties_even_mono [OF this] have "0 \<le> round_ties_even (x / ulp x)"
    using round_ties_even_of_int [of 0] by simp
  with False show ?thesis by (simp add: round_double_def)
qed

lemma round_double_nonpos: "x \<le> 0 \<Longrightarrow> round_double x \<le> 0"
  using round_double_nonneg [of "- x"] by (simp add: round_double_minus)

lemma ulp_scaled:
  "ulp x * 2 ^ 53 = 2 powi (max (binade x) (- 1022) + 1)"
  "ulp x * 2 ^ 52 = 2 powi (max (binade x) (- 1022))"
proof -
  define a where "a = max (binade x) (- 1022) - 52"
  have a: "max (binade x) (- 1022) + 1 = a + 53" "max (binade x) (- 1022) = a + 52"
    by (simp_all add: a_def)
  have "(2::real) powi (a + 53) = 2 powi a * 2 powi 53"
    by (rule power_int_add) simp
  then show "ulp x * 2 ^ 53 = 2 powi (max (binade x) (- 1022) + 1)"
    unfolding a(1) by (simp add: ulp_def a_def)
  have "(2::real) powi (a + 52) = 2 powi a * 2 powi 52"
    by (rule power_int_add) simp
  then show "ulp x * 2 ^ 52 = 2 powi (max (binade x) (- 1022))"
    unfolding a(2) [symmetric] by (simp add: ulp_def a_def)
qed

lemma scaled_less:
  assumes "x \<noteq> 0"
  shows "\<bar>x\<bar> / ulp x < 2 ^ 53"
proof -
  have "\<bar>x\<bar> < 2 powi (binade x + 1)" by (rule binade_bounds(2) [OF assms])
  also have "\<dots> \<le> 2 powi (max (binade x) (- 1022) + 1)"
    by (rule power_int_increasing) simp_all
  also have "\<dots> = ulp x * 2 ^ 53" by (rule ulp_scaled(1) [symmetric])
  finally show ?thesis by (simp add: field_simps)
qed

lemma scaled_ge:
  assumes "x \<noteq> 0" and "- 1022 \<le> binade x"
  shows "2 ^ 52 \<le> \<bar>x\<bar> / ulp x"
proof -
  have "ulp x * 2 ^ 52 = 2 powi binade x"
    using assms(2) ulp_scaled(2) [of x] by (simp add: max_def)
  also have "\<dots> \<le> \<bar>x\<bar>" by (rule binade_bounds(1) [OF assms(1)])
  finally show ?thesis by (simp add: field_simps)
qed

lemma round_double_upper:
  assumes "0 < x"
  shows "round_double x \<le> 2 powi (max (binade x) (- 1022) + 1)"
proof -
  have x: "x \<noteq> 0" using assms by simp
  have "x / ulp x \<le> 2 ^ 53" using scaled_less [OF x] assms by simp
  then have "x / ulp x \<le> real_of_int (2 ^ 53)" by simp
  from round_ties_even_mono [OF this] have "round_ties_even (x / ulp x) \<le> 2 ^ 53"
    by (simp only: round_ties_even_of_int)
  then have "real_of_int (round_ties_even (x / ulp x)) \<le> real_of_int (2 ^ 53)"
    by (simp only: of_int_le_iff)
  then have "real_of_int (round_ties_even (x / ulp x)) * ulp x \<le> 2 ^ 53 * ulp x"
    by (intro mult_right_mono) simp_all
  also have "2 ^ 53 * ulp x = 2 powi (max (binade x) (- 1022) + 1)"
    using ulp_scaled(1) [of x] by (simp add: mult.commute)
  finally show ?thesis using x by (simp add: round_double_def)
qed

lemma round_double_lower:
  assumes "0 < x" and "- 1022 \<le> binade x"
  shows "2 powi binade x \<le> round_double x"
proof -
  have x: "x \<noteq> 0" using assms by simp
  have "real_of_int (2 ^ 52) \<le> x / ulp x" using scaled_ge [OF x assms(2)] assms(1) by simp
  from round_ties_even_mono [OF this] have "2 ^ 52 \<le> round_ties_even (x / ulp x)"
    by (simp only: round_ties_even_of_int)
  then have "real_of_int (2 ^ 52) \<le> real_of_int (round_ties_even (x / ulp x))"
    by (simp only: of_int_le_iff)
  then have a: "2 ^ 52 * ulp x \<le> real_of_int (round_ties_even (x / ulp x)) * ulp x"
    by (intro mult_right_mono) simp_all
  have "2 powi binade x = 2 ^ 52 * ulp x"
    using assms(2) ulp_scaled(2) [of x] by (simp add: max_def mult.commute)
  also note a
  also have "real_of_int (round_ties_even (x / ulp x)) * ulp x = round_double x"
    using x by (simp add: round_double_def)
  finally show ?thesis .
qed

lemma round_double_mono_pos:
  assumes "0 < x" and "x \<le> y"
  shows "round_double x \<le> round_double y"
proof -
  have x: "x \<noteq> 0" and y: "y \<noteq> 0" and yp: "0 < y" using assms by auto
  have b: "binade x \<le> binade y" using binade_mono [OF x] assms by simp
  show ?thesis
  proof (cases "max (binade x) (- 1022) = max (binade y) (- 1022)")
    case True
    then have u: "ulp x = ulp y" by (simp add: ulp_def)
    have "x / ulp y \<le> y / ulp y" using assms(2) by (simp add: divide_right_mono)
    from round_ties_even_mono [OF this]
    have "real_of_int (round_ties_even (x / ulp y)) \<le> real_of_int (round_ties_even (y / ulp y))"
      by (simp only: of_int_le_iff)
    then have "real_of_int (round_ties_even (x / ulp y)) * ulp y
                 \<le> real_of_int (round_ties_even (y / ulp y)) * ulp y"
      by (intro mult_right_mono) simp_all
    with x y u show ?thesis by (simp add: round_double_def)
  next
    case False
    with b have lt: "max (binade x) (- 1022) < binade y" and n: "- 1022 \<le> binade y"
      by (auto simp: max_def split: if_splits)
    have "round_double x \<le> 2 powi (max (binade x) (- 1022) + 1)"
      by (rule round_double_upper [OF assms(1)])
    also have "\<dots> \<le> 2 powi binade y"
    proof (rule power_int_increasing)
      from lt show "max (binade x) (- 1022) + 1 \<le> binade y" by linarith
    qed simp
    also have "\<dots> \<le> round_double y" by (rule round_double_lower [OF yp n])
    finally show ?thesis .
  qed
qed

lemma round_double_mono:
  assumes "x \<le> y"
  shows "round_double x \<le> round_double y"
proof -
  consider "0 < x" | "y < 0" | "x \<le> 0" "0 \<le> y" by linarith
  then show ?thesis
  proof cases
    case 1
    then show ?thesis by (rule round_double_mono_pos [OF _ assms])
  next
    case 2
    then have "0 < - y" "- y \<le> - x" using assms by simp_all
    from round_double_mono_pos [OF this] show ?thesis by (simp add: round_double_minus)
  next
    case 3
    with round_double_nonpos [of x] round_double_nonneg [of y] show ?thesis by linarith
  qed
qed

lemma round_double_exact:
  assumes "x = of_int k * 2 powi j" and "\<bar>k\<bar> < 2 ^ 53" and "- 1074 \<le> j"
  shows "round_double x = x"
proof (cases "x = 0")
  case True
  then show ?thesis by simp
next
  case False
  define i where "i = max (binade x) (- 1022) - 52"
  have u: "ulp x = 2 powi i" by (simp add: ulp_def i_def)
  have "real_of_int \<bar>k\<bar> < real_of_int (2 ^ 53)" using assms(2) by (simp only: of_int_less_iff)
  then have k: "\<bar>real_of_int k\<bar> < 2 ^ 53" by simp
  have "\<bar>x\<bar> = \<bar>real_of_int k\<bar> * 2 powi j" by (simp add: assms(1) abs_mult)
  also have "\<dots> < 2 ^ 53 * 2 powi j" using k by (intro mult_strict_right_mono) simp_all
  also have "\<dots> = 2 powi (j + 53)" by (simp add: power_int_add mult.commute)
  finally have "(2::real) powi binade x < 2 powi (j + 53)"
    using binade_bounds(1) [OF False] by linarith
  then have "binade x < j + 53"
    using power_int_increasing [of "j + 53" "binade x" "2::real"]
    by (cases "binade x < j + 53") auto
  with assms(3) have ij: "i \<le> j" by (simp add: i_def)
  have "x / ulp x = real_of_int k * (2 powi j / 2 powi i)"
    unfolding u by (simp add: assms(1))
  also have "2 powi j / 2 powi i = (2::real) powi (j - i)" by (simp add: power_int_diff)
  also have "\<dots> = 2 ^ nat (j - i)" using ij by (simp add: power_int_def)
  finally have "x / ulp x = real_of_int (k * 2 ^ nat (j - i))" by simp
  then have "round_ties_even (x / ulp x) = k * 2 ^ nat (j - i)"
    by (simp only: round_ties_even_of_int)
  then have "round_double x = real_of_int (k * 2 ^ nat (j - i)) * ulp x"
    using False by (simp add: round_double_def)
  also have "\<dots> = x / ulp x * ulp x" using \<open>x / ulp x = real_of_int (k * 2 ^ nat (j - i))\<close> by simp
  finally show ?thesis by simp
qed

lemma round_double_of_int:
  assumes "\<bar>k\<bar> < 2 ^ 53"
  shows "round_double (of_int k) = of_int k"
  by (rule round_double_exact [where k = k and j = 0]) (use assms in simp_all)

lemma round_double_idem [simp]: "round_double (round_double x) = round_double x"
proof (cases "x = 0")
  case True
  then show ?thesis by simp
next
  case False
  define r where "r = round_ties_even (x / ulp x)"
  define j where "j = max (binade x) (- 1022) - 52"
  have rd: "round_double x = of_int r * 2 powi j"
    using False by (simp add: round_double_def r_def ulp_def j_def)
  have j: "- 1074 \<le> j" by (simp add: j_def)
  have "\<bar>x / ulp x\<bar> < 2 ^ 53" using scaled_less [OF False] by simp
  then have "- (2 ^ 53) \<le> x / ulp x" "x / ulp x \<le> 2 ^ 53" by linarith+
  then have "real_of_int (- (2 ^ 53)) \<le> x / ulp x" "x / ulp x \<le> real_of_int (2 ^ 53)" by simp_all
  then have "- (2 ^ 53) \<le> r" "r \<le> 2 ^ 53"
    using round_ties_even_mono [of "real_of_int (- (2 ^ 53))" "x / ulp x"]
      round_ties_even_mono [of "x / ulp x" "real_of_int (2 ^ 53)"]
    unfolding r_def by (simp_all only: round_ties_even_of_int)
  then consider "\<bar>r\<bar> < 2 ^ 53" | "r = 2 ^ 53" | "r = - (2 ^ 53)" by linarith
  then show ?thesis
  proof cases
    case 1
    show ?thesis by (rule round_double_exact [OF rd 1 j])
  next
    case 2
    have "round_double x = of_int (2 ^ 52) * 2 powi (j + 1)"
      by (simp add: rd 2 power_int_add)
    then show ?thesis by (rule round_double_exact) (use j in simp_all)
  next
    case 3
    have "round_double x = of_int (- (2 ^ 52)) * 2 powi (j + 1)"
      by (simp add: rd 3 power_int_add)
    then show ?thesis by (rule round_double_exact) (use j in simp_all)
  qed
qed

lemma round_double_error: "\<bar>round_double x - x\<bar> \<le> ulp x / 2"
proof (cases "x = 0")
  case True
  then show ?thesis by simp
next
  case False
  have "round_double x - x = (real_of_int (round_ties_even (x / ulp x)) - x / ulp x) * ulp x"
    using False by (simp add: round_double_def left_diff_distrib)
  then have "\<bar>round_double x - x\<bar> = \<bar>real_of_int (round_ties_even (x / ulp x)) - x / ulp x\<bar> * ulp x"
    by (simp only: abs_mult abs_of_pos [OF ulp_pos])
  also have "\<dots> \<le> 1 / 2 * ulp x"
    using round_ties_even_error [of "x / ulp x"] by (intro mult_right_mono) (simp_all add: abs_minus_commute)
  finally show ?thesis by simp
qed

lemma ulp_le:
  assumes "x \<noteq> 0" and "\<bar>x\<bar> < 2 powi (e + 1)" and "- 1022 \<le> e"
  shows "ulp x \<le> 2 powi (e - 52)"
proof -
  note False = assms(1)
  have "(2::real) powi binade x < 2 powi (e + 1)"
    using binade_bounds(1) [OF False] assms(2) by linarith
  then have "binade x < e + 1"
    using power_int_increasing [of "e + 1" "binade x" "2::real"]
    by (cases "binade x < e + 1") auto
  with assms(3) show ?thesis
    unfolding ulp_def by (intro power_int_increasing) simp_all
qed

lemma round_double_dyadic:
  assumes "x * 2 ^ n \<in> \<int>" and "\<bar>x\<bar> * 2 ^ n < 2 ^ 53" and "n \<le> 1074"
  shows "round_double x = x"
proof -
  from assms(1) obtain k where k: "x * 2 ^ n = of_int k" by (auto elim: Ints_cases)
  have "x = of_int k * 2 powi (- int n)"
    using k by (simp add: power_int_minus field_simps)
  moreover have "\<bar>k\<bar> < 2 ^ 53"
  proof -
    have "real_of_int \<bar>k\<bar> = \<bar>x\<bar> * 2 ^ n" using k by (simp add: abs_mult flip: k)
    with assms(2) have "real_of_int \<bar>k\<bar> < real_of_int (2 ^ 53)" by simp
    then show ?thesis by (simp only: of_int_less_iff)
  qed
  ultimately show ?thesis by (rule round_double_exact) (use assms(3) in simp)
qed

lemma round_double_numeral [simp]:
  "round_double 1 = 1" "round_double 2 = 2" "round_double 3 = 3" "round_double 8 = 8"
  "round_double 10 = 10" "round_double 16 = 16" "round_double 17 = 17" "round_double 19 = 19"
  "round_double 20 = 20" "round_double 30 = 30" "round_double 37 = 37" "round_double 190 = 190"
  by (simp_all add: round_double_dyadic [where n = 0])

lemma round_double_between:
  assumes "lo \<le> x" and "x \<le> hi" and "round_double lo = lo" and "round_double hi = hi"
  shows "lo \<le> round_double x \<and> round_double x \<le> hi"
  using round_double_mono [OF assms(1)] round_double_mono [OF assms(2)] assms(3,4) by simp

lemma round_double_power2:
  assumes "n < 53"
  shows "round_double (2 ^ n) = 2 ^ n"
proof -
  have "(2::int) ^ n < 2 ^ 53" using assms by (intro power_strict_increasing) simp_all
  then have "round_double (of_int (2 ^ n)) = of_int (2 ^ n)"
    by (intro round_double_of_int) simp
  then show ?thesis by simp
qed

lemma round_double_small_error:
  assumes "\<bar>round_double x\<bar> < 2 ^ n" and "n < 53"
  shows "\<bar>x\<bar> < 2 ^ n" and "\<bar>round_double x - x\<bar> \<le> 2 powi (int n - 54)"
proof -
  note p = round_double_power2 [OF assms(2)]
  have up: "x < 2 ^ n"
  proof (rule ccontr)
    assume "\<not> x < 2 ^ n"
    then have "2 ^ n \<le> x" by simp
    from round_double_mono [OF this] p assms(1) show False by simp
  qed
  have lo: "- (2 ^ n) < x"
  proof (rule ccontr)
    assume "\<not> - (2 ^ n) < x"
    then have "x \<le> - (2 ^ n)" by simp
    from round_double_mono [OF this] p assms(1) show False
      by (simp add: round_double_minus)
  qed
  from up lo show x: "\<bar>x\<bar> < 2 ^ n" by simp
  show "\<bar>round_double x - x\<bar> \<le> 2 powi (int n - 54)"
  proof (cases "x = 0")
    case True
    then show ?thesis by simp
  next
    case False
    have "\<bar>x\<bar> < 2 powi ((int n - 1) + 1)" using x by simp
    from ulp_le [OF False this] have "ulp x \<le> 2 powi (int n - 1 - 52)" by simp
    also have "int n - 1 - 52 = (int n - 54) + 1" by simp
    also have "(2::real) powi ((int n - 54) + 1) = 2 powi (int n - 54) * 2"
      by (subst power_int_add) simp_all
    finally have "ulp x / 2 \<le> 2 powi (int n - 54)" by simp
    with round_double_error [of x] show ?thesis by linarith
  qed
qed

lemma dmul_minus_one: "dmul (round_double x) (- 1) = - round_double x"
  by (simp add: dmul_def round_double_minus)

subsection \<open>The frame layout\<close>

lemma length_bytes16: "length (bytes16 ord w) = 2"
  by (cases ord) (simp_all add: bytes16_def)

lemma setCanData_nth6: "setCanData ord d1 d2 d3 d4 d5 d6 ! 6 = d5"
  by (cases ord) (simp_all add: setCanData_def bytes16_def)

lemma setCanData_nth7: "setCanData ord d1 d2 d3 d4 d5 d6 ! 7 = d6"
  by (cases ord) (simp_all add: setCanData_def bytes16_def)

lemma tick_data_brake: "tick_data ord s ! 6 = tick_brake (select_command s)"
  by (simp add: tick_data_def Let_def setCanData_nth6)

lemma tick_data_heart_beat: "tick_data ord s ! 7 = heart_beat s"
  by (simp add: tick_data_def Let_def setCanData_nth7)

subsection \<open>The conversions and the callbacks\<close>

lemma trunc_minus: "trunc (- x) = - trunc x"
  by (auto simp: trunc_def ceiling_def)

lemma trunc_error: "\<bar>real_of_int (trunc x) - x\<bar> < 1"
  by (auto simp: trunc_def) linarith+



lemma uint16_of_trunc: "0 \<le> t \<Longrightarrow> t \<le> 65535 \<Longrightarrow> uint (word_of_int t :: 16 word) = t"
  by (simp add: uint_word_of_int take_bit_int_eq_self)

lemma sint16_of_trunc: "- 32768 \<le> t \<Longrightarrow> t \<le> 32767 \<Longrightarrow> sint (word_of_int t :: 16 word) = t"
  by (simp add: signed_of_int signed_take_bit_int_eq_self)

lemma double_to_uint16_Inr:
  "double_to_uint16 x = Inr v \<longleftrightarrow> 0 \<le> trunc x \<and> trunc x \<le> 65535 \<and> v = word_of_int (trunc x)"
  by (auto simp: double_to_uint16_def)

lemma double_to_int16_Inr:
  "double_to_int16 x = Inr v \<longleftrightarrow> - 32768 \<le> trunc x \<and> trunc x \<le> 32767 \<and> v = word_of_int (trunc x)"
  by (auto simp: double_to_int16_def)

lemma twist_cmd_callback_Inr:
  "twist_cmd_callback csa msg s = Inr s' \<Longrightarrow>
     \<exists>v a. s' = s\<lparr> g_target_velocity_ui16 := v, g_steering_angle_deg_i16 := a \<rparr>"
  by (auto simp: twist_cmd_callback_def Let_def split: sum.splits)

lemma twist_cmd_callback_fields:
  assumes "twist_cmd_callback csa msg s = Inr s'"
  shows "s' = s\<lparr> g_target_velocity_ui16 := word_of_int (trunc (dmul (twist_target_velocity msg) 10)),
                  g_steering_angle_deg_i16 :=
                    word_of_int (trunc (- dmul (twist_target_steering_angle_deg csa msg s) 10)) \<rparr>"
    and "0 \<le> trunc (dmul (twist_target_velocity msg) 10)"
    and "trunc (dmul (twist_target_velocity msg) 10) \<le> 65535"
    and "- 32768 \<le> trunc (- dmul (twist_target_steering_angle_deg csa msg s) 10)"
    and "trunc (- dmul (twist_target_steering_angle_deg csa msg s) 10) \<le> 32767"
proof -
  have m: "dmul (dmul (twist_target_steering_angle_deg csa msg s) 10) (- 1)
             = - dmul (twist_target_steering_angle_deg csa msg s) 10"
    unfolding dmul_def [of "twist_target_steering_angle_deg csa msg s" 10]
    by (rule dmul_minus_one)
  from assms show
    "s' = s\<lparr> g_target_velocity_ui16 := word_of_int (trunc (dmul (twist_target_velocity msg) 10)),
              g_steering_angle_deg_i16 :=
                word_of_int (trunc (- dmul (twist_target_steering_angle_deg csa msg s) 10)) \<rparr>"
    and "0 \<le> trunc (dmul (twist_target_velocity msg) 10)"
    and "trunc (dmul (twist_target_velocity msg) 10) \<le> 65535"
    and "- 32768 \<le> trunc (- dmul (twist_target_steering_angle_deg csa msg s) 10)"
    and "trunc (- dmul (twist_target_steering_angle_deg csa msg s) 10) \<le> 32767"
    unfolding twist_cmd_callback_def Let_def m
    by (auto simp: double_to_uint16_Inr double_to_int16_Inr split: sum.splits)
qed

lemma current_joy_callback_statics:
  "current_joy_callback msg s = Inr s' \<Longrightarrow> brake s' = brake s \<and> heart_beat s' = heart_beat s"
  by (auto simp: current_joy_callback_def Let_def split: sum.splits if_splits)

lemma current_joy_callback_fields:
  assumes "current_joy_callback msg s = Inr s'"
  shows "joy_arrays_ok msg"
    and "g_automode s' =
           (if buttons msg ! 12 = 1 then True
            else if buttons msg ! 0 = 1 \<or> axes msg ! 1 \<noteq> 0 \<or> axes msg ! 2 \<noteq> 0 then False
            else g_automode s)"
    and "g_brake s' = joy_brake msg"
    and "g_shift s' = (if buttons msg ! 12 = 1 then 0 else ucast (buttons msg ! 5))"
    and "g_manual_target_velocity_ui16 s' = word_of_int (trunc (dmul (joy_target_velocity msg) 10))"
    and "0 \<le> trunc (dmul (joy_target_velocity msg) 10)"
    and "trunc (dmul (joy_target_velocity msg) 10) \<le> 65535"
    and "g_manual_steering_angle_deg_i16 s' =
           word_of_int (trunc (- dmul (joy_target_steering_angle_deg msg) 10))"
    and "- 32768 \<le> trunc (- dmul (joy_target_steering_angle_deg msg) 10)"
    and "trunc (- dmul (joy_target_steering_angle_deg msg) 10) \<le> 32767"
    and "g_mode s' = g_mode s"
proof -
  have m: "dmul (dmul (joy_target_steering_angle_deg msg) 10) (- 1)
             = - dmul (joy_target_steering_angle_deg msg) 10"
    unfolding dmul_def [of "joy_target_steering_angle_deg msg" 10]
    by (rule dmul_minus_one)
  from assms show "joy_arrays_ok msg"
    and "g_automode s' =
           (if buttons msg ! 12 = 1 then True
            else if buttons msg ! 0 = 1 \<or> axes msg ! 1 \<noteq> 0 \<or> axes msg ! 2 \<noteq> 0 then False
            else g_automode s)"
    and "g_brake s' = joy_brake msg"
    and "g_shift s' = (if buttons msg ! 12 = 1 then 0 else ucast (buttons msg ! 5))"
    and "g_manual_target_velocity_ui16 s' = word_of_int (trunc (dmul (joy_target_velocity msg) 10))"
    and "0 \<le> trunc (dmul (joy_target_velocity msg) 10)"
    and "trunc (dmul (joy_target_velocity msg) 10) \<le> 65535"
    and "g_manual_steering_angle_deg_i16 s' =
           word_of_int (trunc (- dmul (joy_target_steering_angle_deg msg) 10))"
    and "- 32768 \<le> trunc (- dmul (joy_target_steering_angle_deg msg) 10)"
    and "trunc (- dmul (joy_target_steering_angle_deg msg) 10) \<le> 32767"
    and "g_mode s' = g_mode s"
    unfolding current_joy_callback_def Let_def m
    by (auto simp: double_to_uint16_Inr double_to_int16_Inr split: sum.splits if_splits)
qed

lemma round_double_36_10: "round_double (36 / 10) = 8106479329266893 / 2 ^ 51"
  by code_simp

lemma twist_cmd_callback_stored:
  assumes "twist_cmd_callback csa msg s = Inr s'"
  shows "uint (g_target_velocity_ui16 s') = trunc (dmul (twist_target_velocity msg) 10) \<and>
         sint (g_steering_angle_deg_i16 s') =
           - trunc (dmul (twist_target_steering_angle_deg csa msg s) 10)"
proof -
  note f = twist_cmd_callback_fields [OF assms]
  have v: "uint (g_target_velocity_ui16 s') = trunc (dmul (twist_target_velocity msg) 10)"
    using f(2,3) by (simp add: f(1) uint16_of_trunc)
  have a0: "g_steering_angle_deg_i16 s' =
              word_of_int (trunc (- dmul (twist_target_steering_angle_deg csa msg s) 10))"
    by (simp add: f(1))
  have "sint (g_steering_angle_deg_i16 s') =
          trunc (- dmul (twist_target_steering_angle_deg csa msg s) 10)"
    unfolding a0 by (rule sint16_of_trunc [OF f(4) f(5)])
  then have "sint (g_steering_angle_deg_i16 s') =
          - trunc (dmul (twist_target_steering_angle_deg csa msg s) 10)"
    by (simp only: trunc_minus)
  with v show ?thesis by simp
qed

lemma twist_cmd_callback_defined:
  "(\<exists>s'. twist_cmd_callback csa msg s = Inr s') \<longleftrightarrow>
     0 \<le> trunc (dmul (twist_target_velocity msg) 10) \<and>
     trunc (dmul (twist_target_velocity msg) 10) \<le> 65535 \<and>
     - 32767 \<le> trunc (dmul (twist_target_steering_angle_deg csa msg s) 10) \<and>
     trunc (dmul (twist_target_steering_angle_deg csa msg s) 10) \<le> 32768"
proof -
  define V where "V = dmul (twist_target_velocity msg) 10"
  define X where "X = dmul (twist_target_steering_angle_deg csa msg s) 10"
  have m: "dmul X (- 1) = - X"
    unfolding X_def dmul_def [of "twist_target_steering_angle_deg csa msg s" 10]
    by (rule dmul_minus_one)
  have "(\<exists>s'. twist_cmd_callback csa msg s = Inr s') \<longleftrightarrow>
          (0 \<le> trunc V \<and> trunc V \<le> 65535) \<and> (- 32768 \<le> trunc (- X) \<and> trunc (- X) \<le> 32767)"
    unfolding twist_cmd_callback_def Let_def V_def [symmetric] X_def [symmetric] m
    by (auto simp: double_to_uint16_def double_to_int16_def)
  then show ?thesis
    unfolding trunc_minus V_def X_def by auto
qed

text \<open>
  The distance between the scaled double and ten times the exact value, when the scaled
  double is in the range of a 16-bit field.
\<close>

lemma scaled_velocity_error:
  assumes "\<bar>dmul (twist_target_velocity msg) 10\<bar> < 2 ^ 16"
  shows "\<bar>dmul (twist_target_velocity msg) 10 - 36 * linear_x msg\<bar> \<le> 1 / 2 ^ 36"
proof -
  define x where "x = linear_x msg"
  define c :: real where "c = 8106479329266893 / 2 ^ 51"
  define a where "a = round_double (x * c)"
  define V where "V = round_double (a * 10)"
  have V: "dmul (twist_target_velocity msg) 10 = V"
    by (simp only: V_def a_def x_def c_def dmul_def twist_target_velocity_def round_double_36_10)
  from assms have "\<bar>round_double (a * 10)\<bar> < 2 ^ 16" by (simp add: V V_def)
  from round_double_small_error [OF this]
  have a10: "\<bar>a * 10\<bar> < 2 ^ 16" and e1: "\<bar>V - a * 10\<bar> \<le> 1 / 2 ^ 38"
    by (simp_all add: V_def power_int_minus inverse_eq_divide)
  from a10 have "\<bar>round_double (x * c)\<bar> < 2 ^ 13" by (simp add: a_def)
  from round_double_small_error [OF this]
  have xc: "\<bar>x * c\<bar> < 2 ^ 13" and e2: "\<bar>a - x * c\<bar> \<le> 1 / 2 ^ 41"
    by (simp_all add: a_def power_int_minus inverse_eq_divide)
  have c3: "3 \<le> c" by (simp add: c_def)
  have "\<bar>x\<bar> * 3 \<le> \<bar>x\<bar> * c" using c3 by (intro mult_left_mono) simp_all
  also have "\<dots> = \<bar>x * c\<bar>" using c3 by (simp add: abs_mult)
  finally have x: "\<bar>x\<bar> < 2 ^ 12" using xc by simp
  define d :: real where "d = 1 / (5 * 2 ^ 51)"
  have d: "c - 36 / 10 = d" by (simp add: c_def d_def)
  have "x * c - 36 / 10 * x = x * (c - 36 / 10)" by (simp add: algebra_simps)
  then have "\<bar>x * c - 36 / 10 * x\<bar> = \<bar>x\<bar> * \<bar>d\<bar>" by (simp only: abs_mult d)
  also have "\<bar>d\<bar> = d" by (simp add: d_def)
  also have "\<bar>x\<bar> * d \<le> 2 ^ 12 * d" using x by (intro mult_right_mono) (simp_all add: d_def)
  finally have e3: "10 * \<bar>x * c - 36 / 10 * x\<bar> \<le> 10 * (2 ^ 12 * d)" by simp
  from e2 have e2': "10 * \<bar>a - x * c\<bar> \<le> 10 * (1 / 2 ^ 41)" by simp
  define P where "P = V - a * 10"
  define Q where "Q = a - x * c"
  define R where "R = x * c - 36 / 10 * x"
  have "V - 36 * x = P + 10 * Q + 10 * R"
    by (simp add: P_def Q_def R_def algebra_simps)
  moreover have "\<bar>P + 10 * Q + 10 * R\<bar> \<le> \<bar>P\<bar> + 10 * \<bar>Q\<bar> + 10 * \<bar>R\<bar>"
    by linarith
  ultimately
  have "\<bar>V - 36 * x\<bar> \<le> \<bar>V - a * 10\<bar> + 10 * \<bar>a - x * c\<bar> + 10 * \<bar>x * c - 36 / 10 * x\<bar>"
    by (simp add: P_def Q_def R_def)
  also have "\<dots> \<le> 1 / 2 ^ 38 + 10 * (1 / 2 ^ 41) + 10 * (2 ^ 12 * d)"
    by (intro add_mono e1 e2' e3)
  also have "\<dots> \<le> 1 / 2 ^ 36" by (simp add: d_def)
  finally show ?thesis by (simp add: V x_def)
qed

lemma scaled_steering_error:
  assumes "\<bar>dmul (twist_target_steering_angle_deg csa msg s) 10\<bar> < 2 ^ 16"
  shows "\<bar>dmul (twist_target_steering_angle_deg csa msg s) 10
           - 10 * (csa (angular_z msg) (linear_x msg) (g_wheel_base s) + 8)\<bar> \<le> 1 / 2 ^ 36"
proof -
  define y where "y = csa (angular_z msg) (linear_x msg) (g_wheel_base s) + 8"
  define b where "b = round_double y"
  define X where "X = round_double (b * 10)"
  have X: "dmul (twist_target_steering_angle_deg csa msg s) 10 = X"
    by (simp add: X_def b_def y_def dmul_def dadd_def twist_target_steering_angle_deg_def)
  from assms have "\<bar>round_double (b * 10)\<bar> < 2 ^ 16" by (simp add: X X_def)
  from round_double_small_error [OF this]
  have b10: "\<bar>b * 10\<bar> < 2 ^ 16" and e1: "\<bar>X - b * 10\<bar> \<le> 1 / 2 ^ 38"
    by (simp_all add: X_def power_int_minus inverse_eq_divide)
  from b10 have "\<bar>round_double y\<bar> < 2 ^ 13" by (simp add: b_def)
  from round_double_small_error [OF this]
  have e2: "\<bar>b - y\<bar> \<le> 1 / 2 ^ 41"
    by (simp_all add: b_def power_int_minus inverse_eq_divide)
  have "X - 10 * y = (X - b * 10) + 10 * (b - y)" by (simp add: algebra_simps)
  then have "\<bar>X - 10 * y\<bar> \<le> \<bar>X - b * 10\<bar> + 10 * \<bar>b - y\<bar>" by linarith
  also have "\<dots> \<le> 1 / 2 ^ 38 + 10 * (1 / 2 ^ 41)"
  proof (intro add_mono e1)
    from e2 show "10 * \<bar>b - y\<bar> \<le> 10 * (1 / 2 ^ 41)" by simp
  qed
  also have "\<dots> \<le> 1 / 2 ^ 36" by simp
  finally show ?thesis by (simp add: X y_def)
qed

lemma trunc_in_range:
  assumes "lo \<le> trunc x" and "trunc x \<le> hi"
  shows "real_of_int lo - 1 < x" and "x < real_of_int hi + 1"
  using assms trunc_error [of x] by linarith+


subsection \<open>The loop\<close>

lemma dispatch_statics:
  "dispatch csa e s = Inr s' \<Longrightarrow> brake s' = brake s \<and> heart_beat s' = heart_beat s"
  by (cases e) (auto simp: current_vel_callback_def changeMode_def Let_def
      dest: twist_cmd_callback_Inr current_joy_callback_statics)

lemma spin_and_sleep_statics:
  "spin_and_sleep csa evs s = Inr s' \<Longrightarrow> brake s' = brake s \<and> heart_beat s' = heart_beat s"
proof (induction evs arbitrary: s)
  case Nil
  then show ?case by simp
next
  case (Cons e es)
  then obtain s1 where d: "dispatch csa e s = Inr s1" and r: "spin_and_sleep csa es s1 = Inr s'"
    by (auto split: sum.splits)
  from dispatch_statics [OF d] Cons.IH [OF r] show ?case by simp
qed

lemma init_static_brake_simps:
  "heart_beat (init_static_brake s) = heart_beat s"
  "brake (init_static_brake s) = Some (case brake s of None \<Rightarrow> g_brake s | Some b \<Rightarrow> b)"
  "g_brake (init_static_brake s) = g_brake s"
  by (simp_all add: init_static_brake_def split: option.splits)

lemma main_loop_heart_beat:
  "i < length (fst (main_loop csa ord evss s)) \<Longrightarrow>
     fst (main_loop csa ord evss s) ! i ! 7 = heart_beat s + of_nat i"
proof (induction evss arbitrary: s i)
  case Nil
  then show ?case by simp
next
  case (Cons evs rest)
  show ?case
  proof (cases "spin_and_sleep csa evs (init_static_brake s)")
    case (Inl x)
    with Cons.prems show ?thesis
      by (simp add: Let_def tick_data_heart_beat init_static_brake_simps)
  next
    case (Inr s2)
    have hb: "heart_beat s2 = heart_beat s"
      using spin_and_sleep_statics [OF Inr] by (simp add: init_static_brake_simps)
    show ?thesis
    proof (cases i)
      case 0
      with Inr show ?thesis
        by (simp add: Let_def tick_data_heart_beat init_static_brake_simps)
    next
      case (Suc j)
      with Cons.prems Inr
      have "j < length (fst (main_loop csa ord rest (s2\<lparr>heart_beat := heart_beat s2 + 1\<rparr>)))"
        by (simp add: Let_def)
      from Cons.IH [OF this] Inr Suc hb show ?thesis
        by (simp add: Let_def)
    qed
  qed
qed

lemma main_loop_brake:
  "i < length (fst (main_loop csa ord evss s)) \<Longrightarrow>
     fst (main_loop csa ord evss s) ! i ! 6 = (case brake s of None \<Rightarrow> g_brake s | Some b \<Rightarrow> b)"
proof (induction evss arbitrary: s i)
  case Nil
  then show ?case by simp
next
  case (Cons evs rest)
  let ?b = "case brake s of None \<Rightarrow> g_brake s | Some b \<Rightarrow> b"
  have first: "tick_data ord (init_static_brake s) ! 6 = ?b"
    by (simp add: tick_data_brake select_command_def init_static_brake_simps)
  show ?case
  proof (cases "spin_and_sleep csa evs (init_static_brake s)")
    case (Inl x)
    with Cons.prems first show ?thesis
      by (simp add: Let_def)
  next
    case (Inr s2)
    have b2: "brake s2 = Some ?b"
      using spin_and_sleep_statics [OF Inr] by (simp add: init_static_brake_simps)
    show ?thesis
    proof (cases i)
      case 0
      with Inr first show ?thesis
        by (simp add: Let_def)
    next
      case (Suc j)
      with Cons.prems Inr
      have "j < length (fst (main_loop csa ord rest (s2\<lparr>heart_beat := heart_beat s2 + 1\<rparr>)))"
        by (simp add: Let_def)
      from Cons.IH [OF this] Inr Suc b2 show ?thesis
        by (simp add: Let_def)
    qed
  qed
qed

lemma main_loop_length:
  "(\<And>evs s. evs \<in> set evss \<Longrightarrow> \<exists>s'. spin_and_sleep csa evs s = Inr s') \<Longrightarrow>
     length (fst (main_loop csa ord evss s)) = length evss \<and> (\<exists>s'. snd (main_loop csa ord evss s) = Inr s')"
proof (induction evss arbitrary: s)
  case Nil
  then show ?case by simp
next
  case (Cons evs rest)
  from Cons.prems [of evs "init_static_brake s"]
  obtain s2 where s2: "spin_and_sleep csa evs (init_static_brake s) = Inr s2"
    by auto
  have "length (fst (main_loop csa ord rest (s2\<lparr>heart_beat := heart_beat s2 + 1\<rparr>))) = length rest \<and>
        (\<exists>s'. snd (main_loop csa ord rest (s2\<lparr>heart_beat := heart_beat s2 + 1\<rparr>)) = Inr s')"
    by (rule Cons.IH) (simp add: Cons.prems)
  with s2 show ?case by (simp add: Let_def)
qed

lemma heart_beat_unat:
  "unat ((h :: 8 word) + of_nat i) = (unat h + i) mod 256"
  by (simp add: unat_word_ariths unat_of_nat mod_add_right_eq)

lemma heart_beat_distinct:
  assumes "i < j" "j < i + 256"
  shows "(h :: 8 word) + of_nat i \<noteq> h + of_nat j"
proof
  assume "h + of_nat i = h + of_nat j"
  then have "(of_nat i :: 8 word) = of_nat j" by simp
  then have "i mod 256 = j mod 256"
    by (simp add: word_of_nat_eq_iff take_bit_eq_mod)
  then have "(j - i) mod 256 = 0"
    using assms by (metis less_imp_le_nat mod_eq_dvd_iff_nat dvd_imp_mod_0)
  with assms show False by simp
qed

subsection \<open>Evaluation at sample inputs\<close>

lemmas callback_eval =
  twist_cmd_callback_def twist_target_velocity_def twist_target_steering_angle_deg_def
  current_joy_callback_def joy_arrays_ok_def joy_brake_def joy_target_velocity_def
  joy_target_steering_angle_deg_def joy_steering_angle_ratio_deg_def
  double_to_uint16_def double_to_int16_def trunc_def dmul_def dadd_def ddiv_def Let_def
  round_double_dyadic [where n = 10]

lemma scaled_velocity_2:
  "round_double (round_double (2 * round_double (36 / 10)) * 10) = 72"
  "round_double (round_double (2 * round_double (18 / 5)) * 10) = 72"
  by code_simp+

lemma demo_ok: "\<exists>t'. spin_and_sleep (\<lambda>a l w. 0) demo_events t = Inr t'"
  by (simp add: demo_events_def changeMode_def callback_eval scaled_velocity_2)

subsection \<open>The heartbeat\<close>

text \<open>
  Claim C8. Over every run of the loop, also one of more than 256 passes, the heartbeat
  byte (byte 7) of the \<open>i\<close>-th transmitted frame is the initial counter plus \<open>i\<close> modulo
  256: each frame's heartbeat is its predecessor's plus one, 255 is followed by 0, no
  value repeats within 256 consecutive frames, and this holds whatever commands and mode
  changes arrive between the frames. The increment itself never stops the loop: when the
  callbacks between the frames succeed, every pass transmits its frame.
\<close>

theorem heart_beat_every_tick:
  assumes "fs = fst (main_loop csa ord evss s)"
  shows "(\<forall>i < length fs. unat (fs ! i ! 7) = (unat (heart_beat s) + i) mod 256) \<and>
         (\<forall>i. Suc i < length fs \<longrightarrow> fs ! Suc i ! 7 = fs ! i ! 7 + 1) \<and>
         (\<forall>i. Suc i < length fs \<longrightarrow> fs ! i ! 7 = 255 \<longrightarrow> fs ! Suc i ! 7 = 0) \<and>
         (\<forall>i j. i < j \<longrightarrow> j < length fs \<longrightarrow> j < i + 256 \<longrightarrow> fs ! i ! 7 \<noteq> fs ! j ! 7) \<and>
         ((\<forall>evs \<in> set evss. \<forall>t. \<exists>t'. spin_and_sleep csa evs t = Inr t') \<longrightarrow>
            length fs = length evss \<and> (\<exists>s'. snd (main_loop csa ord evss s) = Inr s'))"
proof -
  have hb: "fs ! i ! 7 = heart_beat s + of_nat i" if "i < length fs" for i
    using that main_loop_heart_beat [of i csa ord evss s] by (simp add: assms)
  have a: "\<forall>i < length fs. unat (fs ! i ! 7) = (unat (heart_beat s) + i) mod 256"
    by (simp add: hb heart_beat_unat)
  have b: "\<forall>i. Suc i < length fs \<longrightarrow> fs ! Suc i ! 7 = fs ! i ! 7 + 1"
    by (simp add: hb add.assoc)
  have c: "\<forall>i. Suc i < length fs \<longrightarrow> fs ! i ! 7 = 255 \<longrightarrow> fs ! Suc i ! 7 = 0"
  proof (intro allI impI)
    fix i assume "Suc i < length fs" "fs ! i ! 7 = 255"
    with b have "fs ! Suc i ! 7 = 255 + 1" by simp
    then show "fs ! Suc i ! 7 = 0" by simp
  qed
  have d: "\<forall>i j. i < j \<longrightarrow> j < length fs \<longrightarrow> j < i + 256 \<longrightarrow> fs ! i ! 7 \<noteq> fs ! j ! 7"
  proof (intro allI impI)
    fix i j assume "i < j" "j < length fs" "j < i + 256"
    then show "fs ! i ! 7 \<noteq> fs ! j ! 7"
      using hb [of i] hb [of j] heart_beat_distinct [of i j "heart_beat s"] by simp
  qed
  have e: "(\<forall>evs \<in> set evss. \<forall>t. \<exists>t'. spin_and_sleep csa evs t = Inr t') \<longrightarrow>
            length fs = length evss \<and> (\<exists>s'. snd (main_loop csa ord evss s) = Inr s')"
    using main_loop_length [of evss csa ord s] by (auto simp: assms)
  from a b c d e show ?thesis by blast
qed

theorem heart_beat_every_tick_witness:
  "length (fst (main_loop (\<lambda>a l w. 0) BigEndian (replicate 300 demo_events) initial_globals)) = 300 \<and>
   fst (main_loop (\<lambda>a l w. 0) BigEndian (replicate 300 demo_events) initial_globals) ! 255 ! 7 = 255 \<and>
   fst (main_loop (\<lambda>a l w. 0) BigEndian (replicate 300 demo_events) initial_globals) ! 256 ! 7 = 0 \<and>
   unat (fst (main_loop (\<lambda>a l w. 0) BigEndian (replicate 300 demo_events) initial_globals) ! 299 ! 7) = 43"
proof -
  let ?fs = "fst (main_loop (\<lambda>a l w. 0) BigEndian (replicate 300 demo_events) initial_globals)"
  note th = heart_beat_every_tick [of ?fs "\<lambda>a l w. 0" BigEndian "replicate 300 demo_events" initial_globals, OF refl]
  have ok: "\<forall>evs \<in> set (replicate 300 demo_events). \<forall>t. \<exists>t'. spin_and_sleep (\<lambda>a l w. 0) evs t = Inr t'"
    using demo_ok by simp
  from th ok have len: "length ?fs = 300" by simp
  from th len have u: "\<And>i. i < 300 \<Longrightarrow> unat (?fs ! i ! 7) = (unat (heart_beat initial_globals) + i) mod 256"
    by simp
  have h0: "heart_beat initial_globals = 0" by (simp add: initial_globals_def)
  from u [of 255] h0 have "unat (?fs ! 255 ! 7) = 255" by simp
  then have v255: "?fs ! 255 ! 7 = 255" by (simp add: word_unat_eq_iff)
  from u [of 256] h0 have "unat (?fs ! 256 ! 7) = 0" by simp
  then have v256: "?fs ! 256 ! 7 = 0" by (simp add: word_unat_eq_iff)
  from u [of 299] h0 have v299: "unat (?fs ! 299 ! 7) = 43" by simp
  from len v255 v256 v299 show ?thesis by simp
qed

subsection \<open>The brake byte\<close>

text \<open>
  Claim C1 asks that on every pass the brake read by the loop is the current
  \<^verbatim>\<open>g_brake\<close> and that byte 6 of the frame carries it. The loop declares its copy
  \<^verbatim>\<open>static\<close>, so the copy is taken on the first pass only (lemma \<open>main_loop_brake\<close>:
  byte 6 of every frame is that first value). In the run below the emergency button is
  pressed after the first frame: the handler sets \<^verbatim>\<open>g_brake\<close> to 1, and the second
  frame still carries 0.
\<close>

theorem brake_byte_is_first_pass_value:
  "fst (main_loop csa ord
          [[JoyInput (joy_released\<lparr> buttons := (buttons joy_released)[0 := 1] \<rparr>)], []]
          initial_globals) ! 1 ! 6 = 0 \<and>
   length (fst (main_loop csa ord
          [[JoyInput (joy_released\<lparr> buttons := (buttons joy_released)[0 := 1] \<rparr>)], []]
          initial_globals)) = 2 \<and>
   (\<exists>s. spin_and_sleep csa
          [JoyInput (joy_released\<lparr> buttons := (buttons joy_released)[0 := 1] \<rparr>)]
          (init_static_brake initial_globals) = Inr s \<and> g_brake s = 1 \<and>
        tick_brake (select_command (s\<lparr> heart_beat := heart_beat s + 1 \<rparr>)) = 0)"
  by (simp add: tick_data_brake select_command_def init_static_brake_def
      initial_globals_def joy_released_def callback_eval)

subsection \<open>Arbitration\<close>




subsection \<open>Telemetry lines\<close>

text \<open>
  Claim C2 asks that a line of fewer than three tokens, or one whose identifier is not a
  number, is dropped silently. The only check of the loop body is that the buffer is not
  empty: a line of one or two tokens reaches \<^verbatim>\<open>erase\<close> with a range past the end, a
  non-numeric identifier makes \<^verbatim>\<open>std::stoi\<close> throw \<^verbatim>\<open>std::invalid_argument\<close>, an
  identifier beyond \<^verbatim>\<open>int\<close> makes it throw \<^verbatim>\<open>std::out_of_range\<close>, and the first
  such line ends the thread's run: the well-formed line after it is never read.
\<close>

theorem readCanData_line_unguarded:
  "readCanData_line tcd no_publish ''can0'' s = Inl UndefinedBehaviour \<and>
   readCanData_line tcd no_publish ''can0  200'' s = Inl UndefinedBehaviour \<and>
   readCanData_line tcd no_publish ''can0  zz   [8]  08 00'' s = Inl InvalidArgument \<and>
   readCanData_line tcd no_publish ''can0  99999999999   [8]  08 00'' s = Inl OutOfRange \<and>
   readCanData tcd no_publish (Some [''can0'', ''can0  200   [8]  08 00'']) initial_globals =
     ([], Inl UndefinedBehaviour)"
  by (simp add: readCanData_def readCanData_line_def splitString_def isspace_def stoi_def
      isdigit_def digits_value_def initial_globals_def)

subsection \<open>Start-up\<close>

text \<open>
  Claim C5 asks that a failed acquisition of the transport or of the telemetry stream
  stops the process before the loop. \<^verbatim>\<open>main\<close> proceeds whatever the two calls
  report: a null stream is handed to the telemetry thread, whose first \<^verbatim>\<open>fgets\<close> is
  undefined on it.
\<close>

theorem main_startup_unchecked:
  "main_startup init_ok None = Running None \<and>
   main_startup False fp = Running fp \<and>
   readCanData tcd no_publish None s = ([], Inl UndefinedBehaviour)"
  by (simp add: main_startup_def readCanData_def)

subsection \<open>The autonomous command\<close>

text \<open>
  Claim C4, as the code has it. The speed in km/h is the double product of the speed in
  m/s and the double nearest to 3.6, and the angle is the double sum of the angle that
  \<open>csa\<close> computes and the offset of 8 degrees; each is then multiplied by ten in double
  precision. The callback is defined exactly when the scaled speed, with its fraction
  dropped, fits the unsigned field and the negated scaled angle, with its fraction
  dropped, fits the signed one. Then the stored velocity is the scaled speed truncated
  toward zero (not rounded to nearest), and the stored steering angle is the negation of
  the scaled angle truncated likewise: the offset is added before the scaling, the sign
  is negated, each field is less than one unit away from the scaled double, and less
  than \<open>1 + 2\<^sup>-\<^sup>3\<^sup>6\<close> away from ten times the exact value (36 times the speed in m/s; ten
  times the sum of the angle and 8).
\<close>

theorem twist_cmd_callback_truncates:
  "twist_target_velocity msg = dmul (linear_x msg) (round_double (36 / 10)) \<and>
   twist_target_steering_angle_deg csa msg s =
     dadd (csa (angular_z msg) (linear_x msg) (g_wheel_base s)) 8 \<and>
   ((\<exists>s'. twist_cmd_callback csa msg s = Inr s') \<longleftrightarrow>
      0 \<le> trunc (dmul (twist_target_velocity msg) 10) \<and>
      trunc (dmul (twist_target_velocity msg) 10) \<le> 65535 \<and>
      - 32767 \<le> trunc (dmul (twist_target_steering_angle_deg csa msg s) 10) \<and>
      trunc (dmul (twist_target_steering_angle_deg csa msg s) 10) \<le> 32768) \<and>
   (\<forall>s'. twist_cmd_callback csa msg s = Inr s' \<longrightarrow>
      uint (g_target_velocity_ui16 s') = trunc (dmul (twist_target_velocity msg) 10) \<and>
      sint (g_steering_angle_deg_i16 s') =
        - trunc (dmul (twist_target_steering_angle_deg csa msg s) 10) \<and>
      \<bar>real_of_int (uint (g_target_velocity_ui16 s')) - dmul (twist_target_velocity msg) 10\<bar> < 1 \<and>
      \<bar>real_of_int (sint (g_steering_angle_deg_i16 s')) +
         dmul (twist_target_steering_angle_deg csa msg s) 10\<bar> < 1 \<and>
      \<bar>real_of_int (uint (g_target_velocity_ui16 s')) - 36 * linear_x msg\<bar> < 1 + 1 / 2 ^ 36 \<and>
      \<bar>real_of_int (sint (g_steering_angle_deg_i16 s')) +
         10 * (csa (angular_z msg) (linear_x msg) (g_wheel_base s) + 8)\<bar> < 1 + 1 / 2 ^ 36)"
proof -
  define V where "V = dmul (twist_target_velocity msg) 10"
  define X where "X = dmul (twist_target_steering_angle_deg csa msg s) 10"
  define v where "v = 36 * linear_x msg"
  define y where "y = 10 * (csa (angular_z msg) (linear_x msg) (g_wheel_base s) + 8)"
  have stored: "\<forall>s'. twist_cmd_callback csa msg s = Inr s' \<longrightarrow>
      uint (g_target_velocity_ui16 s') = trunc V \<and>
      sint (g_steering_angle_deg_i16 s') = - trunc X \<and>
      \<bar>real_of_int (uint (g_target_velocity_ui16 s')) - V\<bar> < 1 \<and>
      \<bar>real_of_int (sint (g_steering_angle_deg_i16 s')) + X\<bar> < 1 \<and>
      \<bar>real_of_int (uint (g_target_velocity_ui16 s')) - v\<bar> < 1 + 1 / 2 ^ 36 \<and>
      \<bar>real_of_int (sint (g_steering_angle_deg_i16 s')) + y\<bar> < 1 + 1 / 2 ^ 36"
  proof (intro allI impI)
    fix s' assume ok: "twist_cmd_callback csa msg s = Inr s'"
    from twist_cmd_callback_stored [OF ok]
    have u: "uint (g_target_velocity_ui16 s') = trunc V"
      and a: "sint (g_steering_angle_deg_i16 s') = - trunc X"
      by (simp_all add: V_def X_def)
    from twist_cmd_callback_defined [of csa msg s] ok
    have rv: "0 \<le> trunc V" "trunc V \<le> 65535" and rx: "- 32767 \<le> trunc X" "trunc X \<le> 32768"
      unfolding V_def X_def by blast+
    from trunc_in_range [OF rv] have "\<bar>V\<bar> < 2 ^ 16" by simp
    from scaled_velocity_error [OF this [unfolded V_def]]
    have ev: "\<bar>V - v\<bar> \<le> 1 / 2 ^ 36" by (simp add: V_def v_def)
    from trunc_in_range [OF rx] have "\<bar>X\<bar> < 2 ^ 16" by simp
    from scaled_steering_error [OF this [unfolded X_def]]
    have ex: "\<bar>X - y\<bar> \<le> 1 / 2 ^ 36" by (simp add: X_def y_def)
    have tv: "\<bar>real_of_int (trunc V) - V\<bar> < 1" by (rule trunc_error)
    have tx: "\<bar>real_of_int (trunc X) - X\<bar> < 1" by (rule trunc_error)
    define e :: real where "e = 1 / 2 ^ 36"
    from ev ex have ev': "\<bar>V - v\<bar> \<le> e" and ex': "\<bar>X - y\<bar> \<le> e" by (simp_all add: e_def)
    from tv ev' have "\<bar>real_of_int (trunc V) - v\<bar> < 1 + e" by linarith
    moreover from tx ex' have "\<bar>- real_of_int (trunc X) + y\<bar> < 1 + e" by linarith
    moreover from tx have "\<bar>- real_of_int (trunc X) + X\<bar> < 1" by linarith
    ultimately show "uint (g_target_velocity_ui16 s') = trunc V \<and>
      sint (g_steering_angle_deg_i16 s') = - trunc X \<and>
      \<bar>real_of_int (uint (g_target_velocity_ui16 s')) - V\<bar> < 1 \<and>
      \<bar>real_of_int (sint (g_steering_angle_deg_i16 s')) + X\<bar> < 1 \<and>
      \<bar>real_of_int (uint (g_target_velocity_ui16 s')) - v\<bar> < 1 + 1 / 2 ^ 36 \<and>
      \<bar>real_of_int (sint (g_steering_angle_deg_i16 s')) + y\<bar> < 1 + 1 / 2 ^ 36"
      using tv by (simp add: u a e_def)
  qed
  have defs: "twist_target_velocity msg = dmul (linear_x msg) (round_double (36 / 10))"
    "twist_target_steering_angle_deg csa msg s =
       dadd (csa (angular_z msg) (linear_x msg) (g_wheel_base s)) 8"
    by (simp_all only: twist_target_velocity_def twist_target_steering_angle_deg_def)
  from defs stored twist_cmd_callback_defined [of csa msg s]
  show ?thesis unfolding V_def X_def v_def y_def by blast
qed

theorem twist_cmd_callback_truncates_witness:
  "\<exists>s'. twist_cmd_callback (\<lambda>a l w. 5 / 4) \<lparr> linear_x = 2, angular_z = round_double (1 / 10) \<rparr>
          initial_globals = Inr s' \<and>
        uint (g_target_velocity_ui16 s') = 72 \<and> sint (g_steering_angle_deg_i16 s') = - 92"
proof -
  let ?m = "\<lparr> linear_x = 2, angular_z = round_double (1 / 10) \<rparr>"
  have v: "trunc (dmul (twist_target_velocity ?m) 10) = 72"
    by (simp add: callback_eval scaled_velocity_2)
  have x: "trunc (dmul (twist_target_steering_angle_deg (\<lambda>a l w. 5 / 4) ?m initial_globals) 10) = 92"
    by (simp add: callback_eval)
  note th = twist_cmd_callback_truncates [of ?m "\<lambda>a l w. 5 / 4" initial_globals]
  from th obtain s' where s': "twist_cmd_callback (\<lambda>a l w. 5 / 4) ?m initial_globals = Inr s'"
    unfolding v x by auto
  from th s'
  have "uint (g_target_velocity_ui16 s') = 72 \<and> sint (g_steering_angle_deg_i16 s') = - 92"
    unfolding v x by simp
  with s' show ?thesis by blast
qed

text \<open>
  Claim C4 as stated, with rounding to nearest, fails: the double nearest to 0.3 m/s is
  1.08 km/h, scaled 10.8, and the field holds 10, not 11; an angle of 0.0625 degrees
  gives 80.625 after offset and scaling, and the field holds -80, not -81.
\<close>

theorem twist_cmd_callback_not_rounded:
  "twist_cmd_callback (\<lambda>a l w. 1 / 16) \<lparr> linear_x = round_double (3 / 10), angular_z = 0 \<rparr>
     initial_globals =
     Inr (initial_globals\<lparr> g_target_velocity_ui16 := 10, g_steering_angle_deg_i16 := - 80 \<rparr>) \<and>
   round (10 * (round_double (3 / 10) * (36 / 10))) = 11 \<and>
   round (dmul (twist_target_velocity \<lparr> linear_x = round_double (3 / 10), angular_z = 0 \<rparr>) 10) = 11 \<and>
   - round (10 * (1 / 16 + 8) :: real) = - 81"
  by code_simp

subsection \<open>The manual command\<close>

text \<open>
  Claim C6, as the code has it. After a joystick message that the handler accepts,
  \<^verbatim>\<open>g_automode\<close> is cleared when button 0 is pressed or axis 1 or axis 2 is not zero,
  unless button 12 is pressed in the same message; button 12 sets the flag whatever
  else is pressed; and with none of these the flag keeps its value, whatever the
  steering axis 0 and the throttle axis 4 are.
\<close>

theorem current_joy_callback_automode:
  assumes "current_joy_callback msg s = Inr s'"
  shows "((buttons msg ! 0 = 1 \<or> axes msg ! 1 \<noteq> 0 \<or> axes msg ! 2 \<noteq> 0) \<and> buttons msg ! 12 \<noteq> 1
            \<longrightarrow> \<not> g_automode s') \<and>
         (buttons msg ! 12 = 1 \<longrightarrow> g_automode s') \<and>
         (buttons msg ! 0 \<noteq> 1 \<and> axes msg ! 1 = 0 \<and> axes msg ! 2 = 0 \<and> buttons msg ! 12 \<noteq> 1
            \<longrightarrow> g_automode s' = g_automode s)"
  using current_joy_callback_fields(2) [OF assms] by simp

theorem current_joy_callback_automode_witness:
  "(\<exists>s'. current_joy_callback (joy_released\<lparr> axes := (axes joy_released)[1 := 1 / 2] \<rparr>)
           (initial_globals\<lparr> g_automode := True \<rparr>) = Inr s' \<and> \<not> g_automode s') \<and>
   (\<exists>s'. current_joy_callback (joy_released\<lparr> buttons := (buttons joy_released)[12 := 1] \<rparr>)
           initial_globals = Inr s' \<and> g_automode s') \<and>
   (\<exists>s'. current_joy_callback joy_released (initial_globals\<lparr> g_automode := True \<rparr>) = Inr s' \<and>
         g_automode s')"
proof -
  let ?m1 = "joy_released\<lparr> axes := (axes joy_released)[1 := 1 / 2] \<rparr>"
  let ?m2 = "joy_released\<lparr> buttons := (buttons joy_released)[12 := 1] \<rparr>"
  let ?sa = "initial_globals\<lparr> g_automode := True \<rparr>"
  obtain s1 where s1: "current_joy_callback ?m1 ?sa = Inr s1"
    by (simp add: joy_released_def callback_eval)
  obtain s2 where s2: "current_joy_callback ?m2 initial_globals = Inr s2"
    by (simp add: joy_released_def callback_eval)
  obtain s3 where s3: "current_joy_callback joy_released ?sa = Inr s3"
    by (simp add: joy_released_def callback_eval)
  have "\<not> g_automode s1"
    using current_joy_callback_automode [OF s1] by (simp add: joy_released_def)
  moreover have "g_automode s2"
    using current_joy_callback_automode [OF s2] by (simp add: joy_released_def)
  moreover have "g_automode s3"
    using current_joy_callback_automode [OF s3] by (simp add: joy_released_def)
  ultimately show ?thesis using s1 s2 s3 by blast
qed

text \<open>
  Claim C6 as stated fails: with the steering axis at 0.5 and the throttle trigger fully
  pulled, and nothing else touched, the flag stays set; and with button 0 and button 12
  pressed together the flag ends set.
\<close>

theorem steering_axis_keeps_automode:
  "(\<exists>s'. current_joy_callback
           (joy_released\<lparr> axes := (axes joy_released)[0 := 1 / 2, 4 := - 1] \<rparr>)
           (initial_globals\<lparr> g_automode := True \<rparr>) = Inr s' \<and> g_automode s') \<and>
   (\<exists>s'. current_joy_callback
           (joy_released\<lparr> buttons := (buttons joy_released)[0 := 1, 12 := 1] \<rparr>)
           initial_globals = Inr s' \<and> g_automode s')"
  by (simp add: joy_released_def initial_globals_def callback_eval)

text \<open>
  Claim C9, as the code has it. After a joystick message with button 0 pressed that the
  handler accepts, the brake level is 1 whatever the other brake buttons are, and
  \<^verbatim>\<open>g_automode\<close> is cleared unless button 12 is pressed in the same message, in which
  case it ends set.
\<close>

theorem emergency_button_brake:
  assumes "current_joy_callback msg s = Inr s'" and "buttons msg ! 0 = 1"
  shows "g_brake s' = 1 \<and> (g_automode s' \<longleftrightarrow> buttons msg ! 12 = 1)"
  using current_joy_callback_fields(2,3) [OF assms(1)] assms(2) by (simp add: joy_brake_def)

theorem emergency_button_brake_witness:
  "\<exists>s'. current_joy_callback
          (joy_released\<lparr> buttons := (buttons joy_released)[0 := 1, 2 := 1, 3 := 1] \<rparr>)
          (initial_globals\<lparr> g_automode := True \<rparr>) = Inr s' \<and>
        g_brake s' = 1 \<and> \<not> g_automode s'"
proof -
  let ?m = "joy_released\<lparr> buttons := (buttons joy_released)[0 := 1, 2 := 1, 3 := 1] \<rparr>"
  obtain s' where s': "current_joy_callback ?m (initial_globals\<lparr> g_automode := True \<rparr>) = Inr s'"
    by (simp add: joy_released_def callback_eval)
  have b0: "buttons ?m ! 0 = 1" by (simp add: joy_released_def)
  have "g_brake s' = 1 \<and> \<not> g_automode s'"
    using emergency_button_brake [OF s' b0] by (simp add: joy_released_def)
  with s' show ?thesis by blast
qed

text \<open>
  Claim C9 as stated fails: with button 0 and button 12 pressed together the brake
  level is 1 but the flag, set before, is set afterwards.
\<close>

theorem emergency_with_resume_sets_automode:
  "\<exists>s'. current_joy_callback
          (joy_released\<lparr> buttons := (buttons joy_released)[0 := 1, 12 := 1] \<rparr>)
          (initial_globals\<lparr> g_automode := True \<rparr>) = Inr s' \<and>
        g_automode s' \<and> g_brake s' = 1"
  by (simp add: joy_released_def initial_globals_def callback_eval)

text \<open>
  Claim C7, as the code has it. The ratio is 20 plus 17 times the normalised pull
  \<open>(1 - axes[3]) / 2\<close> of the second trigger, and the manual steering angle before
  scaling is the ratio times axis 0 plus 8, every operation rounded to double
  precision; the stored field is minus ten times that angle, truncated toward zero. For
  a trigger axis between -1 and 1 the ratio lies between 20 and 37 and is within
  \<open>2\<^sup>-\<^sup>4\<^sup>6\<close> of the exact value of the formula: it is 20 with the trigger released (axis
  at 1), 37 with the trigger fully pulled (axis at -1), and it never decreases as the
  pull deepens, that is as the axis value gets smaller.
\<close>

theorem joy_steering_angle_ratio:
  "joy_steering_angle_ratio_deg msg = dadd 20 (dmul 17 (ddiv (dadd (- (axes msg ! 3)) 1) 2)) \<and>
   joy_target_steering_angle_deg msg =
     dadd (dmul (joy_steering_angle_ratio_deg msg) (axes msg ! 0)) 8 \<and>
   (\<forall>s'. current_joy_callback msg s = Inr s' \<longrightarrow>
      sint (g_manual_steering_angle_deg_i16 s') =
        - trunc (dmul (joy_target_steering_angle_deg msg) 10)) \<and>
   (- 1 \<le> axes msg ! 3 \<and> axes msg ! 3 \<le> 1 \<longrightarrow>
      20 \<le> joy_steering_angle_ratio_deg msg \<and> joy_steering_angle_ratio_deg msg \<le> 37 \<and>
      \<bar>joy_steering_angle_ratio_deg msg - (20 + 17 * ((- (axes msg ! 3) + 1) / 2))\<bar>
        \<le> 1 / 2 ^ 46) \<and>
   (axes msg ! 3 = 1 \<longrightarrow> joy_steering_angle_ratio_deg msg = 20) \<and>
   (axes msg ! 3 = - 1 \<longrightarrow> joy_steering_angle_ratio_deg msg = 37) \<and>
   (axes msg' ! 3 \<le> axes msg ! 3 \<longrightarrow>
      joy_steering_angle_ratio_deg msg \<le> joy_steering_angle_ratio_deg msg')"
proof -
  define u where "u = - (axes msg ! 3) + 1"
  define t where "t = round_double u"
  define l2 where "l2 = round_double (t / 2)"
  define m where "m = round_double (17 * l2)"
  define r where "r = round_double (20 + m)"
  have r: "joy_steering_angle_ratio_deg msg = r"
    by (simp add: joy_steering_angle_ratio_deg_def Let_def dmul_def dadd_def ddiv_def
        r_def m_def l2_def t_def u_def)
  have d: "joy_steering_angle_ratio_deg msg = dadd 20 (dmul 17 (ddiv (dadd (- (axes msg ! 3)) 1) 2))"
    by (simp only: joy_steering_angle_ratio_deg_def Let_def)
  have a: "joy_target_steering_angle_deg msg =
     dadd (dmul (joy_steering_angle_ratio_deg msg) (axes msg ! 0)) 8"
    by (simp only: joy_target_steering_angle_deg_def)
  have st: "\<forall>s'. current_joy_callback msg s = Inr s' \<longrightarrow>
      sint (g_manual_steering_angle_deg_i16 s') =
        - trunc (dmul (joy_target_steering_angle_deg msg) 10)"
  proof (intro allI impI)
    fix s' assume ok: "current_joy_callback msg s = Inr s'"
    note f = current_joy_callback_fields(8,9,10) [OF ok]
    have "sint (g_manual_steering_angle_deg_i16 s') =
            trunc (- dmul (joy_target_steering_angle_deg msg) 10)"
      unfolding f(1) by (rule sint16_of_trunc [OF f(2) f(3)])
    then show "sint (g_manual_steering_angle_deg_i16 s') =
        - trunc (dmul (joy_target_steering_angle_deg msg) 10)"
      by (simp only: trunc_minus)
  qed
  have rng: "- 1 \<le> axes msg ! 3 \<and> axes msg ! 3 \<le> 1 \<longrightarrow>
      20 \<le> joy_steering_angle_ratio_deg msg \<and> joy_steering_angle_ratio_deg msg \<le> 37 \<and>
      \<bar>joy_steering_angle_ratio_deg msg - (20 + 17 * ((- (axes msg ! 3) + 1) / 2))\<bar>
        \<le> 1 / 2 ^ 46"
  proof
    assume "- 1 \<le> axes msg ! 3 \<and> axes msg ! 3 \<le> 1"
    then have u: "0 \<le> u" "u \<le> 2" by (simp_all add: u_def)
    have tb: "0 \<le> t \<and> t \<le> 2"
      unfolding t_def by (rule round_double_between) (use u in simp_all)
    then have lb: "0 \<le> l2 \<and> l2 \<le> 1"
      unfolding l2_def by (intro round_double_between) simp_all
    then have mb: "0 \<le> m \<and> m \<le> 17"
      unfolding m_def by (intro round_double_between) simp_all
    then have rb: "20 \<le> r \<and> r \<le> 37"
      unfolding r_def by (intro round_double_between) simp_all
    from tb have "\<bar>round_double u\<bar> < 2 ^ 2" by (simp add: t_def)
    from round_double_small_error(2) [OF this]
    have e1: "\<bar>t - u\<bar> \<le> 1 / 2 ^ 52"
      by (simp add: t_def power_int_minus inverse_eq_divide)
    from lb have "\<bar>round_double (t / 2)\<bar> < 2 ^ 1" by (simp add: l2_def)
    from round_double_small_error(2) [OF this]
    have e2: "\<bar>l2 - t / 2\<bar> \<le> 1 / 2 ^ 53"
      by (simp add: l2_def power_int_minus inverse_eq_divide)
    from mb have "\<bar>round_double (17 * l2)\<bar> < 2 ^ 5" by (simp add: m_def)
    from round_double_small_error(2) [OF this]
    have e3: "\<bar>m - 17 * l2\<bar> \<le> 1 / 2 ^ 49"
      by (simp add: m_def power_int_minus inverse_eq_divide)
    from rb have "\<bar>round_double (20 + m)\<bar> < 2 ^ 6" by (simp add: r_def)
    from round_double_small_error(2) [OF this]
    have e4: "\<bar>r - (20 + m)\<bar> \<le> 1 / 2 ^ 48"
      by (simp add: r_def power_int_minus inverse_eq_divide)
    define P where "P = r - (20 + m)"
    define Q where "Q = m - 17 * l2"
    define R where "R = l2 - t / 2"
    define S where "S = t - u"
    have "r - (20 + 17 * (u / 2)) = P + Q + 17 * R + 17 / 2 * S"
      unfolding P_def Q_def R_def S_def by argo
    moreover have "\<bar>P + Q + 17 * R + 17 / 2 * S\<bar> \<le> \<bar>P\<bar> + \<bar>Q\<bar> + 17 * \<bar>R\<bar> + 17 / 2 * \<bar>S\<bar>"
      by linarith
    moreover have "\<bar>P\<bar> + \<bar>Q\<bar> + 17 * \<bar>R\<bar> + 17 / 2 * \<bar>S\<bar>
        \<le> 1 / 2 ^ 48 + 1 / 2 ^ 49 + 17 * (1 / 2 ^ 53) + 17 / 2 * (1 / 2 ^ 52)"
      using e1 e2 e3 e4 unfolding P_def Q_def R_def S_def
      by (intro add_mono mult_left_mono) simp_all
    moreover have "1 / 2 ^ 48 + 1 / 2 ^ 49 + 17 * (1 / 2 ^ 53) + 17 / 2 * (1 / 2 ^ 52)
        \<le> (1 / 2 ^ 46 :: real)"
      by simp
    ultimately have "\<bar>r - (20 + 17 * (u / 2))\<bar> \<le> 1 / 2 ^ 46"
      by linarith
    with rb show "20 \<le> joy_steering_angle_ratio_deg msg \<and>
      joy_steering_angle_ratio_deg msg \<le> 37 \<and>
      \<bar>joy_steering_angle_ratio_deg msg - (20 + 17 * ((- (axes msg ! 3) + 1) / 2))\<bar>
        \<le> 1 / 2 ^ 46"
      by (simp add: r u_def)
  qed
  have ends: "(axes msg ! 3 = 1 \<longrightarrow> joy_steering_angle_ratio_deg msg = 20) \<and>
              (axes msg ! 3 = - 1 \<longrightarrow> joy_steering_angle_ratio_deg msg = 37)"
    by (simp add: joy_steering_angle_ratio_deg_def Let_def dmul_def dadd_def ddiv_def
        round_double_dyadic [where n = 10])
  have mono: "axes msg' ! 3 \<le> axes msg ! 3 \<longrightarrow>
      joy_steering_angle_ratio_deg msg \<le> joy_steering_angle_ratio_deg msg'"
  proof
    assume le: "axes msg' ! 3 \<le> axes msg ! 3"
    define t' where "t' = round_double (- (axes msg' ! 3) + 1)"
    define l2' where "l2' = round_double (t' / 2)"
    define m' where "m' = round_double (17 * l2')"
    define r' where "r' = round_double (20 + m')"
    have r': "joy_steering_angle_ratio_deg msg' = r'"
      by (simp add: joy_steering_angle_ratio_deg_def Let_def dmul_def dadd_def ddiv_def
          r'_def m'_def l2'_def t'_def)
    from le have "t \<le> t'" unfolding t_def t'_def u_def by (intro round_double_mono) simp
    then have "l2 \<le> l2'" unfolding l2_def l2'_def by (intro round_double_mono) simp
    then have "m \<le> m'" unfolding m_def m'_def by (intro round_double_mono) simp
    then have "r \<le> r'" unfolding r_def r'_def by (intro round_double_mono) simp
    then show "joy_steering_angle_ratio_deg msg \<le> joy_steering_angle_ratio_deg msg'"
      by (simp add: r r')
  qed
  from d a st rng ends mono show ?thesis by blast
qed

theorem joy_steering_angle_ratio_witness:
  "joy_steering_angle_ratio_deg (joy_released\<lparr> axes := [1 / 2, 0, 0, - 1, 0] \<rparr>) = 37 \<and>
   joy_target_steering_angle_deg (joy_released\<lparr> axes := [1 / 2, 0, 0, - 1, 0] \<rparr>) = 53 / 2 \<and>
   (\<exists>s'. current_joy_callback (joy_released\<lparr> axes := [1 / 2, 0, 0, - 1, 0] \<rparr>) initial_globals
           = Inr s' \<and> sint (g_manual_steering_angle_deg_i16 s') = - 265) \<and>
   joy_steering_angle_ratio_deg (joy_released\<lparr> axes := [1 / 2, 0, 0, 1, 0] \<rparr>) = 20 \<and>
   joy_steering_angle_ratio_deg (joy_released\<lparr> axes := [1 / 2, 0, 0, 1, 0] \<rparr>) \<le>
     joy_steering_angle_ratio_deg (joy_released\<lparr> axes := [1 / 2, 0, 0, - 1, 0] \<rparr>)"
proof -
  let ?m = "joy_released\<lparr> axes := [1 / 2, 0, 0, - 1, 0] \<rparr>"
  let ?r = "joy_released\<lparr> axes := [1 / 2, 0, 0, 1, 0] \<rparr>"
  note th = joy_steering_angle_ratio [of ?m initial_globals ?m]
  note th' = joy_steering_angle_ratio [of ?r initial_globals ?m]
  obtain s' where s': "current_joy_callback ?m initial_globals = Inr s'"
    by (simp add: joy_released_def callback_eval)
  from th have a: "joy_steering_angle_ratio_deg ?m = 37" by simp
  from th a have b: "joy_target_steering_angle_deg ?m = 53 / 2"
    by (simp add: dmul_def dadd_def round_double_dyadic [where n = 10])
  from th s' b have c: "sint (g_manual_steering_angle_deg_i16 s') = - 265"
    by (simp add: trunc_def dmul_def round_double_dyadic [where n = 10])
  from th' have d: "joy_steering_angle_ratio_deg ?r = 20" by simp
  from th' have e: "joy_steering_angle_ratio_deg ?r \<le> joy_steering_angle_ratio_deg ?m" by simp
  from a b c d e s' show ?thesis by blast
qed

text \<open>
  Claim C7 as stated fails in double precision. The ratio is not strictly larger for a
  deeper pull: the trigger axis values \<open>2\<^sup>-\<^sup>6\<^sup>0\<close> and 0 give the same ratio 28.5. And the
  angle is not the exact value of the formula: with the trigger released and axis 0 at
  \<open>-2\<^sup>-\<^sup>6\<^sup>0\<close> the angle is the double 8, and the field holds -80, while the exact value is
  below 8 and ten times it truncates to 79.
\<close>

theorem steering_ratio_not_strictly_monotone:
  "joy_steering_angle_ratio_deg (joy_released\<lparr> axes := [0, 0, 0, 1 / 2 ^ 60, 0] \<rparr>) = 57 / 2 \<and>
   joy_steering_angle_ratio_deg (joy_released\<lparr> axes := [0, 0, 0, 0, 0] \<rparr>) = 57 / 2 \<and>
   joy_target_steering_angle_deg (joy_released\<lparr> axes := [- (1 / 2 ^ 60), 0, 0, 1, 0] \<rparr>) = 8 \<and>
   (20 + 17 * ((- 1 + 1) / 2)) * (- (1 / 2 ^ 60)) + 8 < (8::real) \<and>
   current_joy_callback (joy_released\<lparr> axes := [- (1 / 2 ^ 60), 0, 0, 1, 0] \<rparr>) initial_globals =
     Inr (initial_globals\<lparr> g_manual_target_velocity_ui16 := 0,
            g_manual_steering_angle_deg_i16 := - 80 \<rparr>) \<and>
   trunc (10 * ((20 + 17 * ((- 1 + 1) / 2)) * (- (1 / 2 ^ 60)) + 8)) = 79"
  by code_simp

subsection \<open>Reverse motion\<close>







end
